theory Spec2Isabelle
  imports Main "HOL-Library.AList" "HOL-Library.Monad_Syntax"
begin

section \<open>JavaScript string primitives\<close>

text \<open>
  The engine (\<^verbatim>\<open>src/lib/cleaningEngine.ts\<close>) is a collection of pure functions on
  strings and on rows of strings. A string is modelled as a list of characters read as
  ASCII: \<^verbatim>\<open>toLowerCase\<close>/\<^verbatim>\<open>toUpperCase\<close> map the letters A-Z/a-z and leave every other
  character alone, \<^verbatim>\<open>\s\<close> and \<^verbatim>\<open>trim\<close> see the six ASCII white-space characters
  (TAB, LF, VT, FF, CR, SPACE), \<^verbatim>\<open>\d\<close> and \<^verbatim>\<open>\D\<close> see the digits 0-9. On a string of
  ASCII characters (\<open>isAscii\<close>) this is what JavaScript does. Beyond ASCII it is not:
  the upper case of the character U+00DF is \<^verbatim>\<open>'SS'\<close>, and U+00A0 is white space. A statement that
  depends on the case mapping of such characters is made for ASCII strings only.
\<close>

definition isDigit :: "char \<Rightarrow> bool" where
  "isDigit c \<longleftrightarrow> 48 \<le> (of_char c :: nat) \<and> (of_char c :: nat) \<le> 57"

definition isSpace :: "char \<Rightarrow> bool" where
  "isSpace c \<longleftrightarrow> (of_char c :: nat) \<in> {9, 10, 11, 12, 13, 32}"

definition isUpperAlpha :: "char \<Rightarrow> bool" where
  "isUpperAlpha c \<longleftrightarrow> 65 \<le> (of_char c :: nat) \<and> (of_char c :: nat) \<le> 90"

definition isLowerAlpha :: "char \<Rightarrow> bool" where
  "isLowerAlpha c \<longleftrightarrow> 97 \<le> (of_char c :: nat) \<and> (of_char c :: nat) \<le> 122"

definition isAlpha :: "char \<Rightarrow> bool" where
  "isAlpha c \<longleftrightarrow> isUpperAlpha c \<or> isLowerAlpha c"

definition toLowerChar :: "char \<Rightarrow> char" where
  "toLowerChar c = (if isUpperAlpha c then char_of ((of_char c :: nat) + 32) else c)"

definition toUpperChar :: "char \<Rightarrow> char" where
  "toUpperChar c = (if isLowerAlpha c then char_of ((of_char c :: nat) - 32) else c)"

definition toLowerCase :: "string \<Rightarrow> string" where
  "toLowerCase s = map toLowerChar s"

definition toUpperCase :: "string \<Rightarrow> string" where
  "toUpperCase s = map toUpperChar s"

text \<open>\<^verbatim>\<open>s.trim()\<close>: white space is removed from both ends.\<close>

definition trim :: "string \<Rightarrow> string" where
  "trim s = rev (dropWhile isSpace (rev (dropWhile isSpace s)))"

text \<open>
  \<^verbatim>\<open>s.split(c)\<close> for a separator class of single characters (\<^verbatim>\<open>' '\<close>, \<^verbatim>\<open>/[,;|]/\<close>):
  every separator character ends a piece, so the result is never empty and
  adjacent separators give empty pieces.
\<close>

fun splitOn :: "(char \<Rightarrow> bool) \<Rightarrow> string \<Rightarrow> string list" where
  "splitOn P [] = [[]]"
| "splitOn P (c # cs) =
     (if P c then [] # splitOn P cs
      else (case splitOn P cs of [] \<Rightarrow> [[c]] | w # ws \<Rightarrow> (c # w) # ws))"

text \<open>
  \<^verbatim>\<open>s.split(/\s+/)\<close>: a maximal run of separator characters is one separator.
\<close>

function splitRuns :: "(char \<Rightarrow> bool) \<Rightarrow> string \<Rightarrow> string list" where
  "splitRuns P [] = [[]]"
| "splitRuns P (c # cs) =
     (if P c then [] # splitRuns P (dropWhile P cs)
      else (case splitRuns P cs of [] \<Rightarrow> [[c]] | w # ws \<Rightarrow> (c # w) # ws))"
  by pat_completeness auto
termination
  by (relation "measure (\<lambda>(P, s). length s)")
     (auto simp: le_imp_less_Suc length_dropWhile_le)

text \<open>\<^verbatim>\<open>xs.join(sep)\<close>.\<close>

fun join :: "string \<Rightarrow> string list \<Rightarrow> string" where
  "join sep [] = []"
| "join sep [w] = w"
| "join sep (w # v # ws) = w @ sep @ join sep (v # ws)"

definition startsWith :: "string \<Rightarrow> string \<Rightarrow> bool" where
  "startsWith s p \<longleftrightarrow> take (length p) s = p"

definition endsWith :: "string \<Rightarrow> string \<Rightarrow> bool" where
  "endsWith s p \<longleftrightarrow> length p \<le> length s \<and> drop (length s - length p) s = p"

text \<open>\<^verbatim>\<open>s.includes(t)\<close>: \<open>t\<close> occurs in \<open>s\<close> as a contiguous substring.\<close>

fun includesStr :: "string \<Rightarrow> string \<Rightarrow> bool" where
  "includesStr [] t \<longleftrightarrow> t = []"
| "includesStr (c # cs) t \<longleftrightarrow> startsWith (c # cs) t \<or> includesStr cs t"

text \<open>\<^verbatim>\<open>s.padStart(2, '0')\<close>.\<close>

definition padStart2 :: "string \<Rightarrow> string" where
  "padStart2 s = replicate (2 - length s) (CHR ''0'') @ s"

text \<open>\<^verbatim>\<open>parseInt(s, 10)\<close> on a string of decimal digits.\<close>

definition digitVal :: "char \<Rightarrow> nat" where
  "digitVal c = (of_char c :: nat) - 48"

definition parseInt :: "string \<Rightarrow> nat" where
  "parseInt s = foldl (\<lambda>n c. 10 * n + digitVal c) 0 s"

definition isAscii :: "char \<Rightarrow> bool" where
  "isAscii c \<longleftrightarrow> (of_char c :: nat) < 128"

section \<open>JavaScript values and object lookups\<close>

text \<open>
  A value that the engine handles as a cell is a string, except in one case: a lookup
  \<^verbatim>\<open>TABLE[key]\<close> in an object literal follows the prototype chain, so a key that is not
  an own key of the table but names a property of \<^verbatim>\<open>Object.prototype\<close> (for a
  lower-cased key: \<^verbatim>\<open>constructor\<close> and \<^verbatim>\<open>__proto__\<close>) finds a function or an object. Such a
  value is \<open>Obj\<close>: it is truthy, it is not a string, and it has no method \<^verbatim>\<open>trim\<close>.
\<close>

datatype jsValue = Str string | Obj

definition OBJECT_PROTOTYPE_KEYS :: "string list" where
  "OBJECT_PROTOTYPE_KEYS =
    [''constructor'', ''__defineGetter__'', ''__defineSetter__'', ''hasOwnProperty'',
     ''__lookupGetter__'', ''__lookupSetter__'', ''isPrototypeOf'', ''propertyIsEnumerable'',
     ''toString'', ''valueOf'', ''__proto__'', ''toLocaleString'']"

datatype lookup = Missing | Own string | Inherited

text \<open>
  \<^verbatim>\<open>TABLE[key]\<close> for an object literal \<^verbatim>\<open>TABLE\<close> with string values, given as the
  association list of its own keys in the order they are written (the order of
  \<^verbatim>\<open>Object.entries\<close>): an own key first, then the prototype.
\<close>

definition objectGet :: "(string \<times> string) list \<Rightarrow> string \<Rightarrow> lookup" where
  "objectGet table key =
     (case map_of table key of
        Some v \<Rightarrow> Own v
      | None \<Rightarrow> if key \<in> set OBJECT_PROTOTYPE_KEYS then Inherited else Missing)"

text \<open>
  The text that \<^verbatim>\<open>String(value)\<close> and a template literal show for an inherited
  property: the prototype object itself for \<^verbatim>\<open>__proto__\<close>, a built-in function
  otherwise (\<^verbatim>\<open>Object\<close> for \<^verbatim>\<open>constructor\<close>), printed as V8 (Chrome, Node.js) prints a
  native function; other engines differ in the white space between the braces.
\<close>

definition inheritedText :: "string \<Rightarrow> string" where
  "inheritedText key =
     (if key = ''__proto__'' then ''[object Object]''
      else if key = ''constructor'' then ''function Object() { [native code] }''
      else ''function '' @ key @ ''() { [native code] }'')"

section \<open>Constants of the engine\<close>

definition TARGET_HEADERS :: "string list" where
  "TARGET_HEADERS =
    [''Email'', ''First Name'', ''Last Name'', ''Phone'', ''Address'',
     ''Birthday'', ''Time Zone'', ''Status'', ''Tags'', ''Notes'']"

definition NAME_PREFIXES :: "string list" where
  "NAME_PREFIXES =
    [''Mr'', ''Mr.'', ''Mrs'', ''Mrs.'', ''Ms'', ''Ms.'', ''Miss'',
     ''Dr'', ''Dr.'', ''Prof'', ''Prof.'', ''Professor'',
     ''Rev'', ''Rev.'', ''Reverend'',
     ''Hon'', ''Hon.'', ''Honorable'',
     ''Sir'', ''Dame'', ''Lady'', ''Lord'']"

definition NAME_SUFFIXES :: "string list" where
  "NAME_SUFFIXES =
    [''Jr'', ''Jr.'', ''Junior'',
     ''Sr'', ''Sr.'', ''Senior'',
     ''I'', ''II'', ''III'', ''IV'', ''V'',
     ''PhD'', ''Ph.D'', ''Ph.D.'',
     ''MD'', ''M.D'', ''M.D.'',
     ''DDS'', ''D.D.S.'',
     ''Esq'', ''Esq.'',
     ''CPA'', ''RN'', ''MBA'']"

definition VALID_STATUSES :: "string list" where
  "VALID_STATUSES = [''Lead'', ''Customer'', ''VIP'']"

definition VALID_TIME_ZONES :: "string list" where
  "VALID_TIME_ZONES =
  [''Abu Dhabi'', ''Adelaide'', ''Alaska'', ''Almaty'',
   ''American Samoa'', ''Amsterdam'', ''Arizona'', ''Astana'',
   ''Athens'', ''Atlantic Time (Canada)'', ''Auckland'', ''Azores'',
   ''Baghdad'', ''Baku'', ''Bangkok'', ''Beijing'',
   ''Belgrade'', ''Berlin'', ''Bern'', ''Bogota'',
   ''Brasilia'', ''Bratislava'', ''Brisbane'', ''Brussels'',
   ''Bucharest'', ''Budapest'', ''Buenos Aires'', ''Cairo'',
   ''Canberra'', ''Cape Verde Is.'', ''Caracas'', ''Casablanca'',
   ''Central America'', ''Central Time (US & Canada)'', ''Chatham Is.'', ''Chennai'',
   ''Chihuahua'', ''Chongqing'', ''Copenhagen'', ''Darwin'',
   ''Dhaka'', ''Eastern Time (US & Canada)'', ''Edinburgh'', ''Ekaterinburg'',
   ''Fiji'', ''Georgetown'', ''Greenland'', ''Guadalajara'',
   ''Guam'', ''Hanoi'', ''Harare'', ''Hawaii'',
   ''Helsinki'', ''Hobart'', ''Hong Kong'', ''Indiana (East)'',
   ''International Date Line West'', ''Irkutsk'', ''Islamabad'', ''Istanbul'',
   ''Jakarta'', ''Jerusalem'', ''Kabul'', ''Kaliningrad'',
   ''Kamchatka'', ''Karachi'', ''Kathmandu'', ''Kolkata'',
   ''Krasnoyarsk'', ''Kuala Lumpur'', ''Kuwait'', ''Kyiv'',
   ''La Paz'', ''Lima'', ''Lisbon'', ''Ljubljana'',
   ''London'', ''Madrid'', ''Magadan'', ''Marshall Is.'',
   ''Mazatlan'', ''Melbourne'', ''Mexico City'', ''Mid-Atlantic'',
   ''Midway Island'', ''Minsk'', ''Monrovia'', ''Monterrey'',
   ''Montevideo'', ''Moscow'', ''Mountain Time (US & Canada)'', ''Mumbai'',
   ''Muscat'', ''Nairobi'', ''New Caledonia'', ''New Delhi'',
   ''Newfoundland'', ''Novosibirsk'', ''Nuku'alofa'', ''Osaka'',
   ''Pacific Time (US & Canada)'', ''Paris'', ''Perth'', ''Port Moresby'',
   ''Prague'', ''Pretoria'', ''Quito'', ''Rangoon'',
   ''Riga'', ''Riyadh'', ''Rome'', ''Samara'',
   ''Samoa'', ''Santiago'', ''Sapporo'', ''Sarajevo'',
   ''Saskatchewan'', ''Seoul'', ''Singapore'', ''Skopje'',
   ''Sofia'', ''Solomon Is.'', ''Srednekolymsk'', ''Sri Jayawardenepura'',
   ''St. Petersburg'', ''Stockholm'', ''Sydney'', ''Taipei'',
   ''Tallinn'', ''Tashkent'', ''Tbilisi'', ''Tehran'',
   ''Tijuana'', ''Tokelau Is.'', ''Tokyo'', ''Ulaanbaatar'',
   ''Urumqi'', ''UTC'', ''Vienna'', ''Vilnius'',
   ''Vladivostok'', ''Volgograd'', ''Warsaw'', ''Wellington'',
   ''West Central Africa'', ''Yakutsk'', ''Yerevan'', ''Zagreb'']"

definition TIMEZONE_ALIASES :: "(string \<times> string) list" where
  "TIMEZONE_ALIASES =
  [(''est'', ''Eastern Time (US & Canada)''), (''edt'', ''Eastern Time (US & Canada)''),
   (''eastern'', ''Eastern Time (US & Canada)''), (''eastern time'', ''Eastern Time (US & Canada)''),
   (''eastern standard time'', ''Eastern Time (US & Canada)''), (''eastern daylight time'', ''Eastern Time (US & Canada)''),
   (''et'', ''Eastern Time (US & Canada)''), (''america/new_york'', ''Eastern Time (US & Canada)''),
   (''new york'', ''Eastern Time (US & Canada)''), (''us/eastern'', ''Eastern Time (US & Canada)''),
   (''cst'', ''Central Time (US & Canada)''), (''cdt'', ''Central Time (US & Canada)''),
   (''central'', ''Central Time (US & Canada)''), (''central time'', ''Central Time (US & Canada)''),
   (''central standard time'', ''Central Time (US & Canada)''), (''central daylight time'', ''Central Time (US & Canada)''),
   (''ct'', ''Central Time (US & Canada)''), (''america/chicago'', ''Central Time (US & Canada)''),
   (''chicago'', ''Central Time (US & Canada)''), (''us/central'', ''Central Time (US & Canada)''),
   (''mst'', ''Mountain Time (US & Canada)''), (''mdt'', ''Mountain Time (US & Canada)''),
   (''mountain'', ''Mountain Time (US & Canada)''), (''mountain time'', ''Mountain Time (US & Canada)''),
   (''mountain standard time'', ''Mountain Time (US & Canada)''), (''mountain daylight time'', ''Mountain Time (US & Canada)''),
   (''mt'', ''Mountain Time (US & Canada)''), (''america/denver'', ''Mountain Time (US & Canada)''),
   (''denver'', ''Mountain Time (US & Canada)''), (''us/mountain'', ''Mountain Time (US & Canada)''),
   (''pst'', ''Pacific Time (US & Canada)''), (''pdt'', ''Pacific Time (US & Canada)''),
   (''pacific'', ''Pacific Time (US & Canada)''), (''pacific time'', ''Pacific Time (US & Canada)''),
   (''pacific standard time'', ''Pacific Time (US & Canada)''), (''pacific daylight time'', ''Pacific Time (US & Canada)''),
   (''pt'', ''Pacific Time (US & Canada)''), (''america/los_angeles'', ''Pacific Time (US & Canada)''),
   (''los angeles'', ''Pacific Time (US & Canada)''), (''la'', ''Pacific Time (US & Canada)''),
   (''us/pacific'', ''Pacific Time (US & Canada)''), (''akst'', ''Alaska''),
   (''akdt'', ''Alaska''), (''alaska time'', ''Alaska''),
   (''america/anchorage'', ''Alaska''), (''us/alaska'', ''Alaska''),
   (''hst'', ''Hawaii''), (''hast'', ''Hawaii''),
   (''hawaiian'', ''Hawaii''), (''hawaii time'', ''Hawaii''),
   (''pacific/honolulu'', ''Hawaii''), (''us/hawaii'', ''Hawaii''),
   (''america/phoenix'', ''Arizona''), (''phoenix'', ''Arizona''),
   (''us/arizona'', ''Arizona''), (''atlantic'', ''Atlantic Time (Canada)''),
   (''ast'', ''Atlantic Time (Canada)''), (''adt'', ''Atlantic Time (Canada)''),
   (''america/halifax'', ''Atlantic Time (Canada)''), (''canada/atlantic'', ''Atlantic Time (Canada)''),
   (''indiana'', ''Indiana (East)''), (''america/indiana'', ''Indiana (East)''),
   (''gmt'', ''London''), (''bst'', ''London''),
   (''uk'', ''London''), (''britain'', ''London''),
   (''europe/london'', ''London''), (''greenwich'', ''London''),
   (''cet'', ''Paris''), (''cest'', ''Paris''),
   (''france'', ''Paris''), (''europe/paris'', ''Paris''),
   (''germany'', ''Berlin''), (''europe/berlin'', ''Berlin''),
   (''jst'', ''Tokyo''), (''japan'', ''Tokyo''),
   (''asia/tokyo'', ''Tokyo''), (''china'', ''Beijing''),
   (''shanghai'', ''Beijing''), (''asia/shanghai'', ''Beijing''),
   (''india'', ''New Delhi''), (''ist'', ''New Delhi''),
   (''asia/kolkata'', ''Kolkata''), (''aest'', ''Sydney''),
   (''aedt'', ''Sydney''), (''australia'', ''Sydney''),
   (''australia/sydney'', ''Sydney'')]"

definition MONTH_NAMES :: "(string \<times> string) list" where
  "MONTH_NAMES =
    [(''jan'', ''01''), (''january'', ''01''),
     (''feb'', ''02''), (''february'', ''02''),
     (''mar'', ''03''), (''march'', ''03''),
     (''apr'', ''04''), (''april'', ''04''),
     (''may'', ''05''),
     (''jun'', ''06''), (''june'', ''06''),
     (''jul'', ''07''), (''july'', ''07''),
     (''aug'', ''08''), (''august'', ''08''),
     (''sep'', ''09''), (''sept'', ''09''), (''september'', ''09''),
     (''oct'', ''10''), (''october'', ''10''),
     (''nov'', ''11''), (''november'', ''11''),
     (''dec'', ''12''), (''december'', ''12'')]"

section \<open>Full-name splitter\<close>

record SplitNameResult =
  firstName :: string
  lastName :: string
  removedPrefix :: "string option"
  removedSuffix :: "string option"

text \<open>
  \<^verbatim>\<open>removePrefix\<close> and \<^verbatim>\<open>removeSuffix\<close> return the remaining words and the matched
  entry of the table (not the word as it was typed); \<open>None\<close> is the absent
  \<^verbatim>\<open>removed\<close> field.
\<close>

definition removePrefix :: "string list \<Rightarrow> string list \<times> string option" where
  "removePrefix words =
     (case words of
        [] \<Rightarrow> (words, None)
      | firstWord # rest \<Rightarrow>
          (case find (\<lambda>prefix. toLowerCase prefix = toLowerCase firstWord) NAME_PREFIXES of
             Some matchedPrefix \<Rightarrow> (rest, Some matchedPrefix)
           | None \<Rightarrow> (words, None)))"

definition removeSuffix :: "string list \<Rightarrow> string list \<times> string option" where
  "removeSuffix words =
     (if words = [] then (words, None)
      else (case find (\<lambda>suffix. toLowerCase suffix = toLowerCase (last words)) NAME_SUFFIXES of
              Some matchedSuffix \<Rightarrow> (butlast words, Some matchedSuffix)
            | None \<Rightarrow> (words, None)))"

definition splitFullName :: "string \<Rightarrow> SplitNameResult" where
  "splitFullName fullName =
     (if fullName = [] then
        \<lparr>firstName = [], lastName = [], removedPrefix = None, removedSuffix = None\<rparr>
      else
        let words0 = filter (\<lambda>w. length w > 0) (splitRuns isSpace (trim fullName)) in
        if length words0 = 0 then
          \<lparr>firstName = [], lastName = [], removedPrefix = None, removedSuffix = None\<rparr>
        else
          let (words1, removedP) = removePrefix words0;
              (words, removedS) = removeSuffix words1
          in
          if length words = 0 then
            \<lparr>firstName = [], lastName = [], removedPrefix = removedP, removedSuffix = removedS\<rparr>
          else if length words = 1 then
            \<lparr>firstName = words ! 0, lastName = [],
             removedPrefix = removedP, removedSuffix = removedS\<rparr>
          else if length words = 2 then
            \<lparr>firstName = words ! 0, lastName = words ! 1,
             removedPrefix = removedP, removedSuffix = removedS\<rparr>
          else if length words = 3 then
            (if length (words ! 1) = 1 \<or> (length (words ! 1) = 2 \<and> endsWith (words ! 1) ''.'') then
               \<lparr>firstName = words ! 0, lastName = words ! 2,
                removedPrefix = removedP, removedSuffix = removedS\<rparr>
             else
               \<lparr>firstName = words ! 0, lastName = join '' '' (drop 1 words),
                removedPrefix = removedP, removedSuffix = removedS\<rparr>)
          else
            \<lparr>firstName = join '' '' (take 2 words), lastName = join '' '' (drop 2 words),
             removedPrefix = removedP, removedSuffix = removedS\<rparr>)"

section \<open>Phone\<close>

text \<open>
  Both functions are \<^verbatim>\<open>phone.replace(/\D/g, '')\<close> behind a guard for the empty string.
\<close>

definition formatPhoneNumber :: "string \<Rightarrow> string" where
  "formatPhoneNumber phone = (if phone = [] then [] else filter isDigit phone)"

definition cleanPhone :: "string \<Rightarrow> string" where
  "cleanPhone phone = (if phone = [] then [] else filter isDigit phone)"

section \<open>Value cleaners\<close>

text \<open>
  Each cleaner starts with \<^verbatim>\<open>if (!x || typeof x !== 'string') return ''\<close>; on a string
  the guard is the test for the empty string. \<^verbatim>\<open>toLowerCase\<close> and \<^verbatim>\<open>toUpperCase\<close> are
  those of ASCII strings (first section).
\<close>

definition toProperCase :: "string \<Rightarrow> string" where
  "toProperCase str =
     (if str = [] then []
      else join '' ''
             (map (\<lambda>word. toUpperCase (take 1 word) @ drop 1 word)
                  (splitOn (\<lambda>c. c = CHR '' '') (toLowerCase str))))"

definition cleanEmail :: "string \<Rightarrow> string" where
  "cleanEmail email =
     (if email = [] then [] else filter (\<lambda>c. \<not> isSpace c) (toLowerCase email))"

definition cleanStatus :: "string \<Rightarrow> string" where
  "cleanStatus status =
     (if status = [] then []
      else let normalized = toLowerCase (trim status) in
        (case find (\<lambda>validStatus. toLowerCase validStatus = normalized) VALID_STATUSES of
           Some validStatus \<Rightarrow> validStatus
         | None \<Rightarrow> trim status))"

definition isTagSeparator :: "char \<Rightarrow> bool" where
  "isTagSeparator c \<longleftrightarrow> c = CHR '','' \<or> c = CHR '';'' \<or> c = CHR ''|''"

definition cleanTags :: "string \<Rightarrow> string" where
  "cleanTags tags =
     (if tags = [] then []
      else join ''|'' (filter (\<lambda>tag. length tag > 0) (map trim (splitOn isTagSeparator tags))))"

text \<open>
  \<^verbatim>\<open>cleanTimeZone\<close>: the loop over \<^verbatim>\<open>VALID_TIME_ZONES\<close> returns at the first match, as
  \<open>find\<close> does; \<^verbatim>\<open>TIMEZONE_ALIASES[lowerNormalized]\<close> is returned when it is truthy: an
  own value that is not the empty string, or an inherited property, which is not a
  string; the loop over \<^verbatim>\<open>Object.entries(TIMEZONE_ALIASES)\<close> returns at the first alias
  that is contained in the input or contains it (\<open>aliasOverlap\<close>).
\<close>

definition aliasOverlap :: "string \<Rightarrow> string \<Rightarrow> bool" where
  "aliasOverlap lowerNormalized alias \<longleftrightarrow>
     includesStr lowerNormalized alias \<or> includesStr alias lowerNormalized"

definition cleanTimeZone :: "string \<Rightarrow> jsValue" where
  "cleanTimeZone timeZone =
     (if timeZone = [] then Str []
      else
        let normalized = trim timeZone;
            lowerNormalized = toLowerCase normalized
        in
        (case find (\<lambda>validTz. toLowerCase validTz = lowerNormalized) VALID_TIME_ZONES of
           Some validTz \<Rightarrow> Str validTz
         | None \<Rightarrow>
             let partial =
               (case find (\<lambda>(alias, validTz). aliasOverlap lowerNormalized alias)
                          TIMEZONE_ALIASES of
                  Some (alias, validTz) \<Rightarrow> Str validTz
                | None \<Rightarrow> Str normalized)
             in
             (case objectGet TIMEZONE_ALIASES lowerNormalized of
                Own validTz \<Rightarrow> if validTz \<noteq> [] then Str validTz else partial
              | Inherited \<Rightarrow> Obj
              | Missing \<Rightarrow> partial)))"

text \<open>
  \<^verbatim>\<open>cleanTimeZone\<close> applied to any value: the guard
  \<^verbatim>\<open>if (!timeZone || typeof timeZone !== 'string') return ''\<close> answers a value that is
  not a string.
\<close>

definition cleanTimeZoneValue :: "jsValue \<Rightarrow> jsValue" where
  "cleanTimeZoneValue v = (case v of Str s \<Rightarrow> cleanTimeZone s | Obj \<Rightarrow> Str [])"

section \<open>Birthday parsing and rendering\<close>

datatype BirthdayFormat = MM_DD_YYYY | DD_MM_YYYY | YYYY_MM_DD

record BirthdayComponents =
  month :: string
  day :: string
  year :: string

text \<open>
  The four regular expressions of \<^verbatim>\<open>parseBirthday\<close> are anchored at both ends and
  every group is followed by a character outside the group's class (or by the end), so
  a group always takes a maximal run of its class. Each piece below consumes such a run
  and returns it with the rest of the input; \<open>None\<close> is \<^verbatim>\<open>null\<close>, no match.
\<close>

definition digitRun :: "nat \<Rightarrow> nat \<Rightarrow> string \<Rightarrow> (string \<times> string) option" where
  "digitRun lo hi s =
     (let ds = takeWhile isDigit s in
      if lo \<le> length ds \<and> length ds \<le> hi then Some (ds, dropWhile isDigit s) else None)"

definition letterRun :: "string \<Rightarrow> (string \<times> string) option" where
  "letterRun s =
     (let ls = takeWhile isAlpha s in
      if 1 \<le> length ls then Some (ls, dropWhile isAlpha s) else None)"

definition spaceRun :: "string \<Rightarrow> string option" where
  "spaceRun s = (if takeWhile isSpace s = [] then None else Some (dropWhile isSpace s))"

definition isDateSeparator :: "char \<Rightarrow> bool" where
  "isDateSeparator c \<longleftrightarrow> c = CHR ''/'' \<or> c = CHR ''-''"

definition dateSeparator :: "string \<Rightarrow> string option" where
  "dateSeparator s = (case s of [] \<Rightarrow> None | c # r \<Rightarrow> if isDateSeparator c then Some r else None)"

definition optionalComma :: "string \<Rightarrow> string" where
  "optionalComma s = (case s of [] \<Rightarrow> [] | c # r \<Rightarrow> if c = CHR '','' then r else s)"

definition atEnd :: "string \<Rightarrow> 'a \<Rightarrow> 'a option" where
  "atEnd s x = (if s = [] then Some x else None)"

text \<open>\<^verbatim>\<open>/^(\d{4})[\/\-](\d{1,2})[\/\-](\d{1,2})$/\<close>\<close>

definition isoMatch :: "string \<Rightarrow> (string \<times> string \<times> string) option" where
  "isoMatch s = do {
     (y, r1) \<leftarrow> digitRun 4 4 s;
     r2 \<leftarrow> dateSeparator r1;
     (m, r3) \<leftarrow> digitRun 1 2 r2;
     r4 \<leftarrow> dateSeparator r3;
     (d, r5) \<leftarrow> digitRun 1 2 r4;
     atEnd r5 (y, m, d)
   }"

text \<open>\<^verbatim>\<open>/^(\d{1,2})[\/\-](\d{1,2})[\/\-](\d{4})$/\<close>\<close>

definition slashMatch :: "string \<Rightarrow> (string \<times> string \<times> string) option" where
  "slashMatch s = do {
     (a, r1) \<leftarrow> digitRun 1 2 s;
     r2 \<leftarrow> dateSeparator r1;
     (b, r3) \<leftarrow> digitRun 1 2 r2;
     r4 \<leftarrow> dateSeparator r3;
     (y, r5) \<leftarrow> digitRun 4 4 r4;
     atEnd r5 (a, b, y)
   }"

text \<open>\<^verbatim>\<open>/^([a-zA-Z]+)\s+(\d{1,2}),?\s+(\d{4})$/\<close>\<close>

definition textMatch1 :: "string \<Rightarrow> (string \<times> string \<times> string) option" where
  "textMatch1 s = do {
     (monthText, r1) \<leftarrow> letterRun s;
     r2 \<leftarrow> spaceRun r1;
     (d, r3) \<leftarrow> digitRun 1 2 r2;
     r4 \<leftarrow> spaceRun (optionalComma r3);
     (y, r5) \<leftarrow> digitRun 4 4 r4;
     atEnd r5 (monthText, d, y)
   }"

text \<open>\<^verbatim>\<open>/^(\d{1,2})\s+([a-zA-Z]+),?\s+(\d{4})$/\<close>\<close>

definition textMatch2 :: "string \<Rightarrow> (string \<times> string \<times> string) option" where
  "textMatch2 s = do {
     (d, r1) \<leftarrow> digitRun 1 2 s;
     r2 \<leftarrow> spaceRun r1;
     (monthText, r3) \<leftarrow> letterRun r2;
     r4 \<leftarrow> spaceRun (optionalComma r3);
     (y, r5) \<leftarrow> digitRun 4 4 r4;
     atEnd r5 (d, monthText, y)
   }"

definition parseSlash :: "string \<times> string \<times> string \<Rightarrow> BirthdayComponents" where
  "parseSlash m =
     (case m of (first, second, yearText) \<Rightarrow>
        let firstNum = parseInt first; secondNum = parseInt second in
        if firstNum > 12 \<and> secondNum \<le> 12 then
          \<lparr>month = padStart2 second, day = padStart2 first, year = yearText\<rparr>
        else if secondNum > 12 \<and> firstNum \<le> 12 then
          \<lparr>month = padStart2 first, day = padStart2 second, year = yearText\<rparr>
        else
          \<lparr>month = padStart2 first, day = padStart2 second, year = yearText\<rparr>)"

text \<open>
  The two textual forms. \<^verbatim>\<open>MONTH_NAMES[monthText.toLowerCase()]\<close> is taken when it is
  truthy. The components are private to the module and are only ever interpolated into
  a template (\<open>formatBirthdayToTarget\<close>), so the month is kept as the text the template
  shows: the table's value, or the text of an inherited property.
\<close>

definition monthOf :: "string \<Rightarrow> string option" where
  "monthOf monthText =
     (case objectGet MONTH_NAMES (toLowerCase monthText) of
        Own monthNo \<Rightarrow> if monthNo \<noteq> [] then Some monthNo else None
      | Inherited \<Rightarrow> Some (inheritedText (toLowerCase monthText))
      | Missing \<Rightarrow> None)"

definition parseText :: "string \<Rightarrow> BirthdayComponents option" where
  "parseText trimmed =
     (let t1 =
        (case textMatch1 trimmed of
           Some (monthText, dayText, yearText) \<Rightarrow>
             (case monthOf monthText of
                Some monthNo \<Rightarrow>
                  Some \<lparr>month = monthNo, day = padStart2 dayText, year = yearText\<rparr>
              | None \<Rightarrow> None)
         | None \<Rightarrow> None)
      in
      (case t1 of
         Some c \<Rightarrow> Some c
       | None \<Rightarrow>
           (case textMatch2 trimmed of
              Some (dayText, monthText, yearText) \<Rightarrow>
                (case monthOf monthText of
                   Some monthNo \<Rightarrow>
                     Some \<lparr>month = monthNo, day = padStart2 dayText, year = yearText\<rparr>
                 | None \<Rightarrow> None)
            | None \<Rightarrow> None)))"

definition parseBirthday :: "string \<Rightarrow> BirthdayComponents option" where
  "parseBirthday birthday =
     (if birthday = [] then None
      else
        let trimmed = trim birthday in
        (case isoMatch trimmed of
           Some (yearText, monthText, dayText) \<Rightarrow>
             Some \<lparr>month = padStart2 monthText, day = padStart2 dayText, year = yearText\<rparr>
         | None \<Rightarrow>
             (case slashMatch trimmed of
                Some m \<Rightarrow> Some (parseSlash m)
              | None \<Rightarrow> parseText trimmed)))"

definition formatBirthdayToTarget :: "BirthdayComponents \<Rightarrow> BirthdayFormat \<Rightarrow> string" where
  "formatBirthdayToTarget components format =
     (case format of
        MM_DD_YYYY \<Rightarrow> month components @ ''/'' @ day components @ ''/'' @ year components
      | DD_MM_YYYY \<Rightarrow> day components @ ''/'' @ month components @ ''/'' @ year components
      | YYYY_MM_DD \<Rightarrow> year components @ ''/'' @ month components @ ''/'' @ day components)"

definition cleanBirthday :: "string \<Rightarrow> string" where
  "cleanBirthday birthday =
     (case parseBirthday birthday of
        Some components \<Rightarrow> formatBirthdayToTarget components MM_DD_YYYY
      | None \<Rightarrow> trim birthday)"

text \<open>
  A row is a JavaScript object with string values: an association list, its keys in
  insertion order. For a key that \<^verbatim>\<open>Object.prototype\<close> has no property of, as
  \<^verbatim>\<open>Birthday\<close> and \<^verbatim>\<open>Email\<close>, \<^verbatim>\<open>row[k]\<close> is \<open>map_of row k\<close> (\<open>None\<close> for \<^verbatim>\<open>undefined\<close>),
  and \<^verbatim>\<open>{...row, k: v}\<close> is \<open>AList.update k v row\<close>, which keeps the place of a key
  that is present and appends a new one.
\<close>

type_synonym row = "(string \<times> string) list"

text \<open>The callback of \<^verbatim>\<open>data.map\<close> in \<^verbatim>\<open>reformatBirthdays\<close>, for one row.\<close>

definition reformatRow :: "BirthdayFormat \<Rightarrow> row \<Rightarrow> row" where
  "reformatRow format r =
     (case map_of r ''Birthday'' of
        None \<Rightarrow> r
      | Some birthday \<Rightarrow>
          if birthday = [] then r
          else (case parseBirthday birthday of
                  Some components \<Rightarrow>
                    AList.update ''Birthday'' (formatBirthdayToTarget components format) r
                | None \<Rightarrow> r))"

definition reformatBirthdays :: "row list \<Rightarrow> BirthdayFormat \<Rightarrow> row list" where
  "reformatBirthdays rows format = map (reformatRow format) rows"

text \<open>
  For the statements about parsed birthdays: two digits for the month and for the day,
  four digits for the year (\<open>wellFormed\<close>); or, for a textual date whose month word is
  \<^verbatim>\<open>constructor\<close> in any case, the inherited function as the month (\<open>inheritedMonth\<close>).
\<close>

definition wellFormed :: "BirthdayComponents \<Rightarrow> bool" where
  "wellFormed c \<longleftrightarrow>
     length (month c) = 2 \<and> list_all isDigit (month c)
     \<and> length (day c) = 2 \<and> list_all isDigit (day c)
     \<and> length (year c) = 4 \<and> list_all isDigit (year c)"

definition inheritedMonth :: "BirthdayComponents \<Rightarrow> bool" where
  "inheritedMonth c \<longleftrightarrow>
     month c = inheritedText ''constructor''
     \<and> length (day c) = 2 \<and> list_all isDigit (day c)
     \<and> length (year c) = 4 \<and> list_all isDigit (year c)"

section \<open>Cell cleaning and the row processor\<close>

text \<open>
  A raw row comes from the file parser, which fills the cell of every header with a
  string: the raw row is an association list from its headers to strings. A target
  header is \<open>None\<close> for \<^verbatim>\<open>null\<close>.

  \<^verbatim>\<open>row[sourceHeader]\<close> is the string of an own cell, and \<^verbatim>\<open>undefined\<close> (\<open>None\<close>) for
  a header that the row does not have, unless the header names a property of
  \<^verbatim>\<open>Object.prototype\<close>: then the lookup finds a function or an object. \<^verbatim>\<open>cleanCell\<close>
  and \<^verbatim>\<open>processData\<close> read such a value in three ways: \<^verbatim>\<open>String(value)\<close>, which is
  \<open>inheritedText\<close>; \<^verbatim>\<open>typeof value !== 'string'\<close>, by which it is not an empty value (nor
  is its text); and its truthiness (its text is not empty either). The lookup is
  therefore given as that text.
\<close>

definition rowGet :: "row \<Rightarrow> string \<Rightarrow> string option" where
  "rowGet r key =
     (case map_of r key of
        Some v \<Rightarrow> Some v
      | None \<Rightarrow> if key \<in> set OBJECT_PROTOTYPE_KEYS then Some (inheritedText key) else None)"

definition isEmptyValue :: "string option \<Rightarrow> bool" where
  "isEmptyValue v =
     (case v of
        None \<Rightarrow> True
      | Some s \<Rightarrow>
          let normalized = toLowerCase (trim s) in
          normalized = [] \<or> normalized = ''n/a'' \<or> normalized = ''null''
            \<or> normalized = ''undefined'')"

text \<open>The \<^verbatim>\<open>switch\<close> of \<^verbatim>\<open>cleanCell\<close> over the target header.\<close>

definition cleanField :: "string \<Rightarrow> string \<Rightarrow> jsValue" where
  "cleanField target originalValue =
     (if target \<in> set TARGET_HEADERS then
        (if target = ''First Name'' \<or> target = ''Last Name'' then Str (toProperCase originalValue)
         else if target = ''Email'' then Str (cleanEmail originalValue)
         else if target = ''Phone'' then Str (cleanPhone originalValue)
         else if target = ''Status'' then Str (cleanStatus originalValue)
         else if target = ''Tags'' then Str (cleanTags originalValue)
         else if target = ''Time Zone'' then cleanTimeZone originalValue
         else if target = ''Birthday'' then Str (cleanBirthday originalValue)
         else Str originalValue)
      else Str originalValue)"

definition cleanCell :: "string option \<Rightarrow> string option \<Rightarrow> jsValue \<times> bool" where
  "cleanCell v target =
     (let originalValue = trim (case v of None \<Rightarrow> [] | Some s \<Rightarrow> s) in
      if isEmptyValue v then (Str [], originalValue \<noteq> [])
      else
        (case target of
           None \<Rightarrow> (Str originalValue, False)
         | Some t \<Rightarrow>
             if t = [] then (Str originalValue, False)
             else
               let cleaned = cleanField t originalValue in
               (cleaned, cleaned \<noteq> Str originalValue)))"

record HeaderMapping =
  sourceHeader :: string
  targetHeader :: "string option"
  isCustom :: bool

text \<open>
  \<^verbatim>\<open>confidence\<close>, a number that the engine never reads, is left out of
  \<open>HeaderMapping\<close>; an absent \<^verbatim>\<open>isCustom\<close> is \<open>False\<close>.
\<close>

record CleaningStats =
  totalRows :: nat
  emailsCleaned :: nat
  phonesNormalized :: nat
  emptyValuesCleared :: nat
  namesToProperCase :: nat
  totalCellsModified :: nat
  statusValidated :: nat
  timeZoneValidated :: nat
  tagsFormatted :: nat
  birthdayFormatted :: nat
  addressesConsolidated :: nat
  emptyRowsRemoved :: nat
  emptyColumnsRemoved :: nat

definition initialStats :: "nat \<Rightarrow> CleaningStats" where
  "initialStats n =
     \<lparr>totalRows = n, emailsCleaned = 0, phonesNormalized = 0, emptyValuesCleared = 0,
      namesToProperCase = 0, totalCellsModified = 0, statusValidated = 0,
      timeZoneValidated = 0, tagsFormatted = 0, birthdayFormatted = 0,
      addressesConsolidated = 0, emptyRowsRemoved = 0, emptyColumnsRemoved = 0\<rparr>"

text \<open>The \<^verbatim>\<open>switch\<close> over the target header that picks the per-field counter.\<close>

definition countField :: "string \<Rightarrow> CleaningStats \<Rightarrow> CleaningStats" where
  "countField t st =
     (if t \<in> set TARGET_HEADERS then
        (if t = ''Email'' then st\<lparr>emailsCleaned := emailsCleaned st + 1\<rparr>
         else if t = ''Phone'' then st\<lparr>phonesNormalized := phonesNormalized st + 1\<rparr>
         else if t = ''First Name'' \<or> t = ''Last Name'' then
           st\<lparr>namesToProperCase := namesToProperCase st + 1\<rparr>
         else if t = ''Status'' then st\<lparr>statusValidated := statusValidated st + 1\<rparr>
         else if t = ''Time Zone'' then st\<lparr>timeZoneValidated := timeZoneValidated st + 1\<rparr>
         else if t = ''Tags'' then st\<lparr>tagsFormatted := tagsFormatted st + 1\<rparr>
         else if t = ''Birthday'' then st\<lparr>birthdayFormatted := birthdayFormatted st + 1\<rparr>
         else st)
      else st)"

text \<open>
  A row under construction holds what \<^verbatim>\<open>cleanCell\<close> returned, which the code does not
  check to be a string.
\<close>

type_synonym jsRow = "(string \<times> jsValue) list"

text \<open>
  \<^verbatim>\<open>cleanedRow[key] = value\<close> on a row that began as \<^verbatim>\<open>{}\<close>: the value is stored at
  the place of the key, or the key is added last. The key \<^verbatim>\<open>__proto__\<close> is the
  exception: it names the accessor of \<^verbatim>\<open>Object.prototype\<close>, and the assignment makes
  no own property (the value assigned under it is a string, which the accessor
  ignores: only a Time Zone cell can hold another value). The list keeps the keys in
  the order of insertion; JavaScript enumerates keys that are array indices (\<^verbatim>\<open>"0"\<close>,
  \<^verbatim>\<open>"12"\<close>) before the others, so the statements about built rows speak of their keys
  and entries as sets.
\<close>

definition setProp :: "string \<Rightarrow> jsValue \<Rightarrow> jsRow \<Rightarrow> jsRow" where
  "setProp key v r = (if key = ''__proto__'' then r else AList.update key v r)"

text \<open>
  The body of \<^verbatim>\<open>mappings.forEach\<close> for one mapping: the state is the row under
  construction and the statistics. A raw value is truthy when it is a non-empty string.
\<close>

definition applyMapping ::
  "row \<Rightarrow> HeaderMapping \<Rightarrow> jsRow \<times> CleaningStats \<Rightarrow> jsRow \<times> CleaningStats" where
  "applyMapping rawRow mapping acc =
     (case acc of (cleanedRow, st) \<Rightarrow>
        (case targetHeader mapping of
           None \<Rightarrow> (cleanedRow, st)
         | Some t \<Rightarrow>
             if t = [] \<or> sourceHeader mapping = [] then (cleanedRow, st)
             else
               let rawValue = rowGet rawRow (sourceHeader mapping);
                   (cleanedValue, wasModified) = cleanCell rawValue (Some t);
                   cleanedRow' = setProp t cleanedValue cleanedRow
               in
               if wasModified then
                 let st1 = st\<lparr>totalCellsModified := totalCellsModified st + 1\<rparr>;
                     st2 = countField t st1;
                     st3 = (if cleanedValue = Str [] \<and> rawValue \<noteq> None \<and> rawValue \<noteq> Some []
                            then st2\<lparr>emptyValuesCleared := emptyValuesCleared st2 + 1\<rparr>
                            else st2)
                 in (cleanedRow', st3)
               else (cleanedRow', st)))"

definition collectTargetHeaders :: "HeaderMapping list \<Rightarrow> string list" where
  "collectTargetHeaders mappings =
     fold (\<lambda>m allTargetHeaders.
             (case targetHeader m of
                None \<Rightarrow> allTargetHeaders
              | Some t \<Rightarrow>
                  if t \<noteq> [] \<and> isCustom m \<and> t \<notin> set allTargetHeaders
                  then allTargetHeaders @ [t] else allTargetHeaders))
          mappings TARGET_HEADERS"

definition cleanRow ::
  "string list \<Rightarrow> HeaderMapping list \<Rightarrow> row \<Rightarrow> CleaningStats \<Rightarrow> jsRow \<times> CleaningStats" where
  "cleanRow allTargetHeaders mappings rawRow st =
     fold (applyMapping rawRow) mappings
          (fold (\<lambda>header cleanedRow. setProp header (Str []) cleanedRow) allTargetHeaders [],
           st)"

text \<open>\<^verbatim>\<open>rows.map(...)\<close>, with the statistics threaded from one row to the next.\<close>

fun cleanRows ::
  "string list \<Rightarrow> HeaderMapping list \<Rightarrow> row list \<Rightarrow> CleaningStats
     \<Rightarrow> jsRow list \<times> CleaningStats" where
  "cleanRows allTargetHeaders mappings [] st = ([], st)"
| "cleanRows allTargetHeaders mappings (rawRow # rest) st =
     (case cleanRow allTargetHeaders mappings rawRow st of (cleanedRow, st1) \<Rightarrow>
        (case cleanRows allTargetHeaders mappings rest st1 of (cleanedRest, st2) \<Rightarrow>
           (cleanedRow # cleanedRest, st2)))"

definition nonBlank :: "string \<Rightarrow> bool" where
  "nonBlank v \<longleftrightarrow> v \<noteq> [] \<and> trim v \<noteq> []"

text \<open>
  The test \<^verbatim>\<open>value && value.trim() !== ''\<close> of the two pruning steps. A value that is
  not a string is truthy and has no \<^verbatim>\<open>trim\<close>: the call throws a \<^verbatim>\<open>TypeError\<close>, which
  nothing in the engine catches.
\<close>

datatype error = TypeError

definition valueHasData :: "jsValue \<Rightarrow> error + bool" where
  "valueHasData v = (case v of Str s \<Rightarrow> Inr (nonBlank s) | Obj \<Rightarrow> Inl TypeError)"

text \<open>
  \<^verbatim>\<open>Object.values(row).some(...)\<close>: the values are tested in order and the first one
  with data ends the test.
\<close>

fun hasData :: "jsValue list \<Rightarrow> error + bool" where
  "hasData [] = Inr False"
| "hasData (v # rest) =
     (case valueHasData v of
        Inl e \<Rightarrow> Inl e
      | Inr True \<Rightarrow> Inr True
      | Inr False \<Rightarrow> hasData rest)"

text \<open>\<^verbatim>\<open>data.filter(...)\<close>, counting the rows it drops.\<close>

fun filterRows :: "jsRow list \<Rightarrow> CleaningStats \<Rightarrow> error + jsRow list \<times> CleaningStats" where
  "filterRows [] st = Inr ([], st)"
| "filterRows (r # rest) st =
     (case hasData (map snd r) of
        Inl e \<Rightarrow> Inl e
      | Inr True \<Rightarrow>
          (case filterRows rest st of
             Inl e \<Rightarrow> Inl e
           | Inr (kept, st1) \<Rightarrow> Inr (r # kept, st1))
      | Inr False \<Rightarrow> filterRows rest (st\<lparr>emptyRowsRemoved := emptyRowsRemoved st + 1\<rparr>))"

text \<open>
  The two nested \<^verbatim>\<open>forEach\<close> that fill the set \<^verbatim>\<open>columnsWithData\<close>: every entry of
  every surviving row is tested.
\<close>

fun addColumns :: "jsRow \<Rightarrow> string set \<Rightarrow> error + string set" where
  "addColumns [] cols = Inr cols"
| "addColumns ((key, v) # rest) cols =
     (case valueHasData v of
        Inl e \<Rightarrow> Inl e
      | Inr d \<Rightarrow> addColumns rest (if d then insert key cols else cols))"

fun columnsWithData :: "jsRow list \<Rightarrow> string set \<Rightarrow> error + string set" where
  "columnsWithData [] cols = Inr cols"
| "columnsWithData (r # rest) cols =
     (case addColumns r cols of
        Inl e \<Rightarrow> Inl e
      | Inr cols1 \<Rightarrow> columnsWithData rest cols1)"

definition removeEmptyColumns :: "string set \<Rightarrow> jsRow \<Rightarrow> jsRow" where
  "removeEmptyColumns cols r =
     fold (\<lambda>(key, v) cleanedRow. if key \<in> cols then setProp key v cleanedRow else cleanedRow)
          r []"

text \<open>
  \<^verbatim>\<open>processData\<close> returns the pair of \<^verbatim>\<open>data\<close> and \<^verbatim>\<open>stats\<close>, or throws.
\<close>

definition processData ::
  "row list \<Rightarrow> HeaderMapping list \<Rightarrow> error + jsRow list \<times> CleaningStats" where
  "processData rows mappings =
     (let allTargetHeaders = collectTargetHeaders mappings;
          (cleaned, st1) = cleanRows allTargetHeaders mappings rows (initialStats (length rows))
      in
      (case filterRows cleaned st1 of
         Inl e \<Rightarrow> Inl e
       | Inr (filteredData, st2) \<Rightarrow>
           (case columnsWithData filteredData {} of
              Inl e \<Rightarrow> Inl e
            | Inr cols \<Rightarrow>
                let allColumns = (case filteredData of [] \<Rightarrow> [] | r # _ \<Rightarrow> map fst r);
                    emptyColumns = filter (\<lambda>col. col \<notin> cols) allColumns;
                    st3 = st2\<lparr>emptyColumnsRemoved := length emptyColumns\<rparr>;
                    cleanedData = map (removeEmptyColumns cols) filteredData
                in Inr (cleanedData, st3\<lparr>totalRows := length cleanedData\<rparr>))))"

text \<open>
  For the statements about the row processor. A mapping is applied to a row when its
  target and its source are not empty; the cell it produces is modified when the
  cleaned value is not the trimmed original, and cleared when it is modified and the
  cleaned value is the empty string. No cell of a Time Zone column names an inherited
  property of the alias table (\<open>plainTimeZones\<close>): then every cleaned value is a string.
\<close>

definition originalOf :: "row \<Rightarrow> HeaderMapping \<Rightarrow> string" where
  "originalOf rawRow m =
     trim (case rowGet rawRow (sourceHeader m) of None \<Rightarrow> [] | Some s \<Rightarrow> s)"

definition cleanedOf :: "row \<Rightarrow> HeaderMapping \<Rightarrow> jsValue" where
  "cleanedOf rawRow m = fst (cleanCell (rowGet rawRow (sourceHeader m)) (targetHeader m))"

definition applied :: "HeaderMapping \<Rightarrow> bool" where
  "applied m \<longleftrightarrow>
     targetHeader m \<noteq> None \<and> targetHeader m \<noteq> Some [] \<and> sourceHeader m \<noteq> []"

definition cellModified :: "row \<Rightarrow> HeaderMapping \<Rightarrow> bool" where
  "cellModified rawRow m \<longleftrightarrow> applied m \<and> cleanedOf rawRow m \<noteq> Str (originalOf rawRow m)"

definition cellCleared :: "row \<Rightarrow> HeaderMapping \<Rightarrow> bool" where
  "cellCleared rawRow m \<longleftrightarrow> cellModified rawRow m \<and> cleanedOf rawRow m = Str []"

definition countCells :: "(row \<Rightarrow> HeaderMapping \<Rightarrow> bool) \<Rightarrow> row list \<Rightarrow> HeaderMapping list \<Rightarrow> nat" where
  "countCells P rows mappings = sum_list (map (\<lambda>r. length (filter (P r) mappings)) rows)"

definition plainTimeZones :: "row list \<Rightarrow> HeaderMapping list \<Rightarrow> bool" where
  "plainTimeZones rows mappings \<longleftrightarrow>
     list_all (\<lambda>r. list_all (\<lambda>m. targetHeader m = Some ''Time Zone'' \<longrightarrow>
                                  toLowerCase (originalOf r m) \<notin> set OBJECT_PROTOTYPE_KEYS)
                             mappings)
              rows"

definition rowHasData :: "jsRow \<Rightarrow> bool" where
  "rowHasData r \<longleftrightarrow> (\<exists>(k, c)\<in>set r. \<exists>v. c = Str v \<and> (\<exists>ch\<in>set v. \<not> isSpace ch))"

text \<open>
  The keys that one mapping adds to a row under construction, and the keys of every
  row that \<open>cleanRow\<close> builds (they depend on the mappings only, not on the raw row).
\<close>

definition keyStep :: "HeaderMapping \<Rightarrow> string list \<Rightarrow> string list" where
  "keyStep m ks =
     (case targetHeader m of
        None \<Rightarrow> ks
      | Some t \<Rightarrow> if t = [] \<or> sourceHeader m = [] \<or> t = ''__proto__'' then ks
                  else if t \<in> set ks then ks else ks @ [t])"

definition outputKeys :: "HeaderMapping list \<Rightarrow> string list" where
  "outputKeys ms = fold keyStep ms
     (map fst (fold (\<lambda>header cleanedRow. setProp header (Str []) cleanedRow)
                    (collectTargetHeaders ms) ([] :: jsRow)))"

section \<open>Duplicate detection\<close>

datatype DuplicateField = Email | Phone

record DuplicateGroup =
  field :: DuplicateField
  val :: string
  rowIndices :: "nat list"

text \<open>
  \<^verbatim>\<open>emailMap\<close> is a \<^verbatim>\<open>Map\<close>, iterated in insertion order: an association list. One step
  of \<^verbatim>\<open>data.forEach\<close> appends the row index to the entry of the row's lower-cased,
  trimmed Email, when that is not empty. The field \<^verbatim>\<open>value\<close> of a group is named
  \<open>val\<close> here.
\<close>

definition emailKey :: "row \<Rightarrow> string option" where
  "emailKey r =
     (case map_of r ''Email'' of
        None \<Rightarrow> None
      | Some e \<Rightarrow> Some (trim (toLowerCase e)))"

definition addEmail ::
  "nat \<times> row \<Rightarrow> (string \<times> nat list) list \<Rightarrow> (string \<times> nat list) list" where
  "addEmail ir emailMap =
     (case ir of (index, r) \<Rightarrow>
        (case emailKey r of
           None \<Rightarrow> emailMap
         | Some email \<Rightarrow>
             if email \<noteq> [] then
               let indices = (case map_of emailMap email of None \<Rightarrow> [] | Some is \<Rightarrow> is)
               in AList.update email (indices @ [index]) emailMap
             else emailMap))"

definition detectDuplicates :: "row list \<Rightarrow> DuplicateGroup list" where
  "detectDuplicates rows =
     (let emailMap = fold addEmail (zip [0..<length rows] rows) [] in
      map (\<lambda>(v, indices). \<lparr>field = Email, val = v, rowIndices = indices\<rparr>)
          (filter (\<lambda>(v, indices). length indices > 1) emailMap))"

text \<open>
  For the statements about the groups: the indices, in row order, of the rows whose
  lower-cased, trimmed Email is \<open>v\<close>.
\<close>

definition emailRows :: "row list \<Rightarrow> string \<Rightarrow> nat list" where
  "emailRows rows v = filter (\<lambda>i. emailKey (rows ! i) = Some v) [0..<length rows]"

section \<open>Properties of the full-name splitter\<close>

text \<open>
  C4 (as stated): \<^verbatim>\<open>splitFullName("Dr. John Michael Smith Jr.")\<close> returns firstName
  "John Michael", lastName "Smith", removedPrefix "Dr." and removedSuffix "Jr.".
  The code does not: after the title and the suffix are removed three words remain, the
  middle one is not an initial, and the three-word rule gives the first word as first
  name and the other two as last name.
\<close>

theorem C4_splitFullName_counterexample:
  "\<not> (firstName (splitFullName ''Dr. John Michael Smith Jr.'') = ''John Michael''
      \<and> lastName (splitFullName ''Dr. John Michael Smith Jr.'') = ''Smith''
      \<and> removedPrefix (splitFullName ''Dr. John Michael Smith Jr.'') = Some ''Dr.''
      \<and> removedSuffix (splitFullName ''Dr. John Michael Smith Jr.'') = Some ''Jr.'')"
  by code_simp

text \<open>
  C4 (amended): \<^verbatim>\<open>splitFullName("Dr. John Michael Smith Jr.")\<close> returns firstName "John",
  lastName "Michael Smith", removedPrefix "Dr." and removedSuffix "Jr.".
\<close>

theorem C4_splitFullName_example:
  "splitFullName ''Dr. John Michael Smith Jr.'' =
     \<lparr>firstName = ''John'', lastName = ''Michael Smith'',
      removedPrefix = Some ''Dr.'', removedSuffix = Some ''Jr.''\<rparr>"
  by code_simp

section \<open>Properties of the phone functions\<close>

text \<open>
  C7 (as stated): \<^verbatim>\<open>formatPhoneNumber\<close> groups the digit-only phone value into a dashed
  pattern and differs from the cleaning-time normalizer \<^verbatim>\<open>cleanPhone\<close> on some
  digit-only input. The code does not: no digit-only input (indeed no input at all)
  separates the two functions.
\<close>

theorem C7_formatPhoneNumber_counterexample:
  "\<not> (\<exists>phone. list_all isDigit phone \<and> formatPhoneNumber phone \<noteq> cleanPhone phone)"
  by (simp add: formatPhoneNumber_def cleanPhone_def)

text \<open>
  C7 (amended): \<^verbatim>\<open>formatPhoneNumber\<close> is the same function as \<^verbatim>\<open>cleanPhone\<close>: it removes
  every character that is not a digit, so its result holds no dash, and a digit-only
  value is returned as it is.
\<close>

theorem C7_formatPhoneNumber_is_cleanPhone:
  "formatPhoneNumber phone = cleanPhone phone
   \<and> formatPhoneNumber phone = filter isDigit phone
   \<and> CHR ''-'' \<notin> set (formatPhoneNumber phone)
   \<and> formatPhoneNumber (filter isDigit phone) = filter isDigit phone"
proof -
  have "\<not> isDigit (CHR ''-'')"
    by (simp add: isDigit_def)
  then show ?thesis
    by (auto simp: formatPhoneNumber_def cleanPhone_def)
qed

theorem C7_formatPhoneNumber_witness:
  "formatPhoneNumber ''5551234567'' = cleanPhone ''5551234567''
   \<and> formatPhoneNumber ''5551234567'' = ''5551234567''
   \<and> formatPhoneNumber ''(555) 123-4567'' = ''5551234567''"
  using C7_formatPhoneNumber_is_cleanPhone [of "''5551234567''"]
  by (simp add: formatPhoneNumber_def isDigit_def)

section \<open>Basic facts about characters, runs and the tables\<close>

lemma isDigit_not_isSpace: "isDigit c \<Longrightarrow> \<not> isSpace c"
  by (auto simp: isDigit_def isSpace_def)

lemma isDateSeparator_not_isDigit: "isDateSeparator c \<Longrightarrow> \<not> isDigit c"
  by (auto simp: isDateSeparator_def isDigit_def)

lemma trim_id: "s \<noteq> [] \<Longrightarrow> \<not> isSpace (hd s) \<Longrightarrow> \<not> isSpace (last s) \<Longrightarrow> trim s = s"
proof -
  assume a: "s \<noteq> []" "\<not> isSpace (hd s)" "\<not> isSpace (last s)"
  from a(1,2) have 1: "dropWhile isSpace s = s"
    by (cases s) auto
  from a(1,3) have 2: "dropWhile isSpace (rev s) = rev s"
    by (cases "rev s") (auto simp: last_rev hd_rev)
  show ?thesis
    by (simp add: trim_def 1 2)
qed

lemma digitRun_append:
  "list_all isDigit a \<Longrightarrow> r = [] \<or> \<not> isDigit (hd r) \<Longrightarrow>
   digitRun lo hi (a @ r) = (if lo \<le> length a \<and> length a \<le> hi then Some (a, r) else None)"
proof -
  assume a: "list_all isDigit a" and r: "r = [] \<or> \<not> isDigit (hd r)"
  have t: "takeWhile isDigit (a @ r) = a"
    using a r by (cases r) (auto simp: list_all_iff takeWhile_append2)
  have d: "dropWhile isDigit (a @ r) = r"
    using a r by (cases r) (auto simp: list_all_iff dropWhile_append2)
  show ?thesis
    by (simp add: digitRun_def t d)
qed

lemma parseInt_gt_12_length:
  "list_all isDigit a \<Longrightarrow> length a \<le> 2 \<Longrightarrow> 12 < parseInt a \<Longrightarrow> length a = 2"
  apply (cases a; simp add: parseInt_def)
  subgoal for c cs
    apply (cases cs; simp add: digitVal_def isDigit_def)
    apply arith
    done
  done

lemma padStart2_two: "length s = 2 \<Longrightarrow> padStart2 s = s"
  by (simp add: padStart2_def)

lemma slashMatch_shape:
  assumes "list_all isDigit a" "1 \<le> length a" "length a \<le> 2"
      and "list_all isDigit b" "1 \<le> length b" "length b \<le> 2"
      and "list_all isDigit y" "length y = 4"
      and "isDateSeparator s1" "isDateSeparator s2"
  shows "slashMatch (a @ s1 # b @ s2 # y) = Some (a, b, y)"
    and "isoMatch (a @ s1 # b @ s2 # y) = None"
proof -
  have n1: "\<not> isDigit s1" and n2: "\<not> isDigit s2"
    using assms by (auto dest: isDateSeparator_not_isDigit)
  have 1: "digitRun (Suc 0) 2 (a @ s1 # b @ s2 # y) = Some (a, s1 # b @ s2 # y)"
    using assms n1 by (simp add: digitRun_append)
  have 2: "digitRun (Suc 0) 2 (b @ s2 # y) = Some (b, s2 # y)"
    using assms n2 by (simp add: digitRun_append)
  have 3: "digitRun 4 4 y = Some (y, [])"
    using assms digitRun_append [of y "[]" 4 4] by simp
  show "slashMatch (a @ s1 # b @ s2 # y) = Some (a, b, y)"
    using assms by (simp add: slashMatch_def 1 2 3 dateSeparator_def atEnd_def)
  have 4: "digitRun 4 4 (a @ s1 # b @ s2 # y) = None"
    using assms n1 by (simp add: digitRun_append)
  show "isoMatch (a @ s1 # b @ s2 # y) = None"
    by (simp add: isoMatch_def 4)
qed

text \<open>The canonical zone labels in lower case, and what the two tables guarantee.\<close>

lemma lower_valid: "map toLowerCase VALID_TIME_ZONES =
  [''abu dhabi'', ''adelaide'', ''alaska'', ''almaty'',
   ''american samoa'', ''amsterdam'', ''arizona'', ''astana'',
   ''athens'', ''atlantic time (canada)'', ''auckland'', ''azores'',
   ''baghdad'', ''baku'', ''bangkok'', ''beijing'',
   ''belgrade'', ''berlin'', ''bern'', ''bogota'',
   ''brasilia'', ''bratislava'', ''brisbane'', ''brussels'',
   ''bucharest'', ''budapest'', ''buenos aires'', ''cairo'',
   ''canberra'', ''cape verde is.'', ''caracas'', ''casablanca'',
   ''central america'', ''central time (us & canada)'', ''chatham is.'', ''chennai'',
   ''chihuahua'', ''chongqing'', ''copenhagen'', ''darwin'',
   ''dhaka'', ''eastern time (us & canada)'', ''edinburgh'', ''ekaterinburg'',
   ''fiji'', ''georgetown'', ''greenland'', ''guadalajara'',
   ''guam'', ''hanoi'', ''harare'', ''hawaii'',
   ''helsinki'', ''hobart'', ''hong kong'', ''indiana (east)'',
   ''international date line west'', ''irkutsk'', ''islamabad'', ''istanbul'',
   ''jakarta'', ''jerusalem'', ''kabul'', ''kaliningrad'',
   ''kamchatka'', ''karachi'', ''kathmandu'', ''kolkata'',
   ''krasnoyarsk'', ''kuala lumpur'', ''kuwait'', ''kyiv'',
   ''la paz'', ''lima'', ''lisbon'', ''ljubljana'',
   ''london'', ''madrid'', ''magadan'', ''marshall is.'',
   ''mazatlan'', ''melbourne'', ''mexico city'', ''mid-atlantic'',
   ''midway island'', ''minsk'', ''monrovia'', ''monterrey'',
   ''montevideo'', ''moscow'', ''mountain time (us & canada)'', ''mumbai'',
   ''muscat'', ''nairobi'', ''new caledonia'', ''new delhi'',
   ''newfoundland'', ''novosibirsk'', ''nuku'alofa'', ''osaka'',
   ''pacific time (us & canada)'', ''paris'', ''perth'', ''port moresby'',
   ''prague'', ''pretoria'', ''quito'', ''rangoon'',
   ''riga'', ''riyadh'', ''rome'', ''samara'',
   ''samoa'', ''santiago'', ''sapporo'', ''sarajevo'',
   ''saskatchewan'', ''seoul'', ''singapore'', ''skopje'',
   ''sofia'', ''solomon is.'', ''srednekolymsk'', ''sri jayawardenepura'',
   ''st. petersburg'', ''stockholm'', ''sydney'', ''taipei'',
   ''tallinn'', ''tashkent'', ''tbilisi'', ''tehran'',
   ''tijuana'', ''tokelau is.'', ''tokyo'', ''ulaanbaatar'',
   ''urumqi'', ''utc'', ''vienna'', ''vilnius'',
   ''vladivostok'', ''volgograd'', ''warsaw'', ''wellington'',
   ''west central africa'', ''yakutsk'', ''yerevan'', ''zagreb'']"
  by code_simp

lemma distinct_lower_valid: "distinct (map toLowerCase VALID_TIME_ZONES)"
  unfolding lower_valid by simp

lemma distinct_alias_keys: "distinct (map fst TIMEZONE_ALIASES)"
  unfolding TIMEZONE_ALIASES_def by simp

lemma alias_values_valid: "snd ` set TIMEZONE_ALIASES \<subseteq> set VALID_TIME_ZONES"
  unfolding TIMEZONE_ALIASES_def VALID_TIME_ZONES_def by simp

lemma alias_values_nonempty: "\<forall>(a, v)\<in>set TIMEZONE_ALIASES. v \<noteq> []"
  unfolding TIMEZONE_ALIASES_def by simp

lemma valid_trimmed:
  "\<forall>v\<in>set VALID_TIME_ZONES. v \<noteq> [] \<and> \<not> isSpace (hd v) \<and> \<not> isSpace (last v)"
  unfolding VALID_TIME_ZONES_def by (simp add: isSpace_def)

lemma find_distinct_image:
  "distinct (map f xs) \<Longrightarrow> v \<in> set xs \<Longrightarrow> find (\<lambda>x. f x = f v) xs = Some v"
  by (induction xs) (auto simp: image_iff)

lemma find_lower_valid_None:
  "l \<notin> set (map toLowerCase VALID_TIME_ZONES) \<Longrightarrow>
   find (\<lambda>validTz. toLowerCase validTz = l) VALID_TIME_ZONES = None"
  by (auto simp: find_None_iff)

lemma objectGet_aliases_Own:
  "map_of TIMEZONE_ALIASES l = Some v \<Longrightarrow> objectGet TIMEZONE_ALIASES l = Own v"
  by (simp add: objectGet_def)

lemma objectGet_Missing:
  "map_of table l = None \<Longrightarrow> l \<notin> set OBJECT_PROTOTYPE_KEYS \<Longrightarrow> objectGet table l = Missing"
  by (simp add: objectGet_def)

lemma objectGet_Inherited:
  "map_of table l = None \<Longrightarrow> l \<in> set OBJECT_PROTOTYPE_KEYS \<Longrightarrow> objectGet table l = Inherited"
  by (simp add: objectGet_def)

lemma alias_keys_own: "\<forall>k\<in>set OBJECT_PROTOTYPE_KEYS. map_of TIMEZONE_ALIASES k = None"
  unfolding OBJECT_PROTOTYPE_KEYS_def TIMEZONE_ALIASES_def by simp

lemma cleanTimeZone_Central_Park:
  "cleanTimeZone ''Central Park'' = Str ''Central Time (US & Canada)''"
proof -
  have l: "toLowerCase (trim ''Central Park'') = ''central park''"
    by code_simp
  have v: "find (\<lambda>validTz. toLowerCase validTz = ''central park'') VALID_TIME_ZONES = None"
    by (rule find_lower_valid_None) (simp add: lower_valid)
  have "map_of TIMEZONE_ALIASES ''central park'' = None"
    unfolding TIMEZONE_ALIASES_def by simp
  moreover have "''central park'' \<notin> set OBJECT_PROTOTYPE_KEYS"
    by (simp add: OBJECT_PROTOTYPE_KEYS_def)
  ultimately have a: "objectGet TIMEZONE_ALIASES ''central park'' = Missing"
    by (rule objectGet_Missing)
  have s: "find (\<lambda>(alias, validTz). aliasOverlap ''central park'' alias) TIMEZONE_ALIASES
           = Some (''central'', ''Central Time (US & Canada)'')"
    by code_simp
  show ?thesis
    by (simp add: cleanTimeZone_def Let_def l v a s)
qed

section \<open>Facts about characters, trimming, splitting and joining\<close>

subsection \<open>Characters\<close>

lemma of_char_lt_256: "(of_char c :: nat) < 256"
  by (rule nat_of_char_less_256)

lemma toLowerChar_idem: "toLowerChar (toLowerChar c) = toLowerChar c"
  using of_char_lt_256 [of c]
  by (auto simp: toLowerChar_def isUpperAlpha_def)

lemma isSpace_toLowerChar: "isSpace (toLowerChar c) = isSpace c"
  using of_char_lt_256 [of c]
  by (auto simp: toLowerChar_def isUpperAlpha_def isSpace_def)

lemma not_upper_toLowerChar: "\<not> isUpperAlpha (toLowerChar c)"
  using of_char_lt_256 [of c]
  by (auto simp: toLowerChar_def isUpperAlpha_def)

lemma toLowerChar_id: "\<not> isUpperAlpha c \<Longrightarrow> toLowerChar c = c"
  by (simp add: toLowerChar_def)

lemma toLowerChar_toUpperChar: "\<not> isUpperAlpha c \<Longrightarrow> toLowerChar (toUpperChar c) = c"
  using of_char_lt_256 [of c]
  by (auto simp: toLowerChar_def toUpperChar_def isUpperAlpha_def isLowerAlpha_def)

lemma of_char_toLowerChar:
  "(of_char (toLowerChar c) :: nat) = (if isUpperAlpha c then of_char c + 32 else of_char c)"
  by (auto simp: toLowerChar_def isUpperAlpha_def)

lemma toLowerChar_space: "toLowerChar c = CHR '' '' \<longleftrightarrow> c = CHR '' ''"
proof -
  have "toLowerChar c = CHR '' '' \<longleftrightarrow> (of_char (toLowerChar c) :: nat) = of_char (CHR '' '')"
    by (simp only: of_char_eq_iff)
  also have "\<dots> \<longleftrightarrow> (of_char c :: nat) = of_char (CHR '' '')"
    by (auto simp: of_char_toLowerChar isUpperAlpha_def)
  also have "\<dots> \<longleftrightarrow> c = CHR '' ''"
    by (simp only: of_char_eq_iff)
  finally show ?thesis .
qed

subsection \<open>Trimming\<close>

lemma last_dropWhile: "dropWhile P xs \<noteq> [] \<Longrightarrow> last (dropWhile P xs) = last xs"
  by (induction xs) (auto split: if_splits)

lemma trim_ends:
  assumes "trim s \<noteq> []"
  shows "\<not> isSpace (hd (trim s))" and "\<not> isSpace (last (trim s))"
proof -
  let ?d = "dropWhile isSpace s"
  let ?w = "dropWhile isSpace (rev ?d)"
  have w: "?w \<noteq> []"
    using assms by (simp add: trim_def del: dropWhile_eq_Nil_conv)
  then have d: "?d \<noteq> []"
    by (auto simp del: dropWhile_eq_Nil_conv)
  have "hd (trim s) = last ?w"
    using w by (simp add: trim_def hd_rev del: dropWhile_eq_Nil_conv)
  also have "\<dots> = last (rev ?d)"
    using w by (rule last_dropWhile)
  also have "\<dots> = hd ?d"
    using d by (simp add: last_rev del: dropWhile_eq_Nil_conv)
  finally show "\<not> isSpace (hd (trim s))"
    using hd_dropWhile [OF d] by simp
  have "last (trim s) = hd ?w"
    using w by (simp add: trim_def last_rev del: dropWhile_eq_Nil_conv)
  then show "\<not> isSpace (last (trim s))"
    using hd_dropWhile [OF w] by simp
qed

lemma trim_trim: "trim (trim s) = trim s"
proof (cases "trim s = []")
  case True
  have "trim [] = []"
    by (simp add: trim_def)
  then show ?thesis
    by (simp only: True)
next
  case False
  then show ?thesis
    by (intro trim_id trim_ends)
qed

lemma set_trim: "set (trim s) \<subseteq> set s"
proof
  fix c assume "c \<in> set (trim s)"
  then have "c \<in> set (dropWhile isSpace (rev (dropWhile isSpace s)))"
    by (simp add: trim_def)
  then have "c \<in> set (rev (dropWhile isSpace s))"
    by (rule set_dropWhileD)
  then have "c \<in> set (dropWhile isSpace s)"
    by simp
  then show "c \<in> set s"
    by (rule set_dropWhileD)
qed

subsection \<open>Splitting and joining\<close>

lemma splitOn_nonempty: "splitOn P s \<noteq> []"
  by (induction s) (auto split: list.splits)

lemma splitOn_pieces: "w \<in> set (splitOn P s) \<Longrightarrow> c \<in> set w \<Longrightarrow> \<not> P c \<and> c \<in> set s"
proof (induction s arbitrary: w)
  case Nil
  then show ?case by simp
next
  case (Cons a s)
  show ?case
  proof (cases "P a")
    case True
    with Cons show ?thesis by auto
  next
    case False
    obtain v vs where sp: "splitOn P s = v # vs"
      using splitOn_nonempty [of P s] by (cases "splitOn P s") auto
    from Cons.prems False sp have "w = a # v \<or> w \<in> set vs"
      by simp
    then show ?thesis
    proof
      assume "w = a # v"
      with Cons.prems(2) have "c = a \<or> c \<in> set v"
        by simp
      then show ?thesis
        using False Cons.IH [of v] sp by auto
    next
      assume "w \<in> set vs"
      then show ?thesis
        using Cons.IH [of w] Cons.prems(2) sp by auto
    qed
  qed
qed

lemma splitOn_no_sep: "\<forall>c\<in>set p. \<not> P c \<Longrightarrow> splitOn P p = [p]"
  by (induction p) auto

lemma splitOn_append_sep:
  "\<forall>c\<in>set p. \<not> P c \<Longrightarrow> P s \<Longrightarrow> splitOn P (p @ s # rest) = p # splitOn P rest"
  by (induction p) auto

lemma splitOn_join:
  "ps \<noteq> [] \<Longrightarrow> \<forall>p\<in>set ps. \<forall>c\<in>set p. \<not> P c \<Longrightarrow> P s \<Longrightarrow> splitOn P (join [s] ps) = ps"
proof (induction "[s]" ps rule: join.induct)
  case 1
  then show ?case by simp
next
  case (2 w)
  then show ?case by (simp add: splitOn_no_sep)
next
  case (3 w v ws)
  then show ?case
    by (simp add: splitOn_append_sep)
qed

lemma map_join: "map f (join sep ws) = join (map f sep) (map (map f) ws)"
  by (induction sep ws rule: join.induct) auto

section \<open>Properties of the time-zone cleaner\<close>

text \<open>
  C2 (as stated): the exact-before-substring order keeps "Central Park" from being
  resolved: \<^verbatim>\<open>cleanTimeZone("Central Park")\<close> is returned unchanged. The code does not:
  the input has no exact match, the substring scan finds the alias "central" inside
  "central park", and the result is "Central Time (US & Canada)".
\<close>

theorem C2_cleanTimeZone_Central_Park_counterexample:
  "cleanTimeZone ''Central Park'' \<noteq> Str ''Central Park''
   \<and> cleanTimeZone ''Central Park'' = Str ''Central Time (US & Canada)''"
  by (simp add: cleanTimeZone_Central_Park)

text \<open>
  C2 (amended): for a non-empty input, with \<open>l\<close> the trimmed input in lower case,
  \<^verbatim>\<open>cleanTimeZone\<close> returns (1) the canonical zone whose lower-case form is \<open>l\<close>, if
  there is one; else (2) the value of the alias \<open>l\<close>, if \<open>l\<close> is an alias; else, when
  \<open>l\<close> is not the name of a property that the alias table inherits as an object,
  (3) the value of the first alias of the table that is contained in \<open>l\<close> or contains
  \<open>l\<close>; else (4) the trimmed input. The exact matches come before the substring scan,
  but the scan still resolves inputs that merely contain an alias: "Central Park" is
  resolved to "Central Time (US & Canada)".
\<close>

theorem C2_cleanTimeZone_resolution:
  assumes ne: "timeZone \<noteq> []"
  shows "(\<forall>v\<in>set VALID_TIME_ZONES.
            toLowerCase v = toLowerCase (trim timeZone) \<longrightarrow> cleanTimeZone timeZone = Str v)
       \<and> ((\<forall>v\<in>set VALID_TIME_ZONES. toLowerCase v \<noteq> toLowerCase (trim timeZone)) \<longrightarrow>
            (\<forall>v. (toLowerCase (trim timeZone), v) \<in> set TIMEZONE_ALIASES \<longrightarrow>
                   cleanTimeZone timeZone = Str v)
          \<and> (toLowerCase (trim timeZone) \<notin> fst ` set TIMEZONE_ALIASES
              \<and> toLowerCase (trim timeZone) \<notin> set OBJECT_PROTOTYPE_KEYS \<longrightarrow>
               (\<forall>i<length TIMEZONE_ALIASES.
                   aliasOverlap (toLowerCase (trim timeZone)) (fst (TIMEZONE_ALIASES ! i))
                   \<and> (\<forall>j<i. \<not> aliasOverlap (toLowerCase (trim timeZone))
                                   (fst (TIMEZONE_ALIASES ! j)))
                   \<longrightarrow> cleanTimeZone timeZone = Str (snd (TIMEZONE_ALIASES ! i)))
             \<and> ((\<forall>a\<in>fst ` set TIMEZONE_ALIASES.
                    \<not> aliasOverlap (toLowerCase (trim timeZone)) a)
                   \<longrightarrow> cleanTimeZone timeZone = Str (trim timeZone))))
       \<and> cleanTimeZone ''Central Park'' = Str ''Central Time (US & Canada)''"
    (is "?A \<and> (?noValid \<longrightarrow> ?B \<and> (?noAlias \<longrightarrow> ?C \<and> ?D)) \<and> ?E")
proof -
  let ?l = "toLowerCase (trim timeZone)"
  let ?P = "\<lambda>(alias, validTz). aliasOverlap ?l alias"
  have A: ?A
  proof (intro ballI impI)
    fix v assume v: "v \<in> set VALID_TIME_ZONES" "toLowerCase v = ?l"
    have "find (\<lambda>x. toLowerCase x = toLowerCase v) VALID_TIME_ZONES = Some v"
      using distinct_lower_valid v(1) by (rule find_distinct_image)
    then show "cleanTimeZone timeZone = Str v"
      using ne v(2) by (simp add: cleanTimeZone_def Let_def)
  qed
  have rest: "?B \<and> (?noAlias \<longrightarrow> ?C \<and> ?D)" if nv: ?noValid
  proof -
    have f: "find (\<lambda>validTz. toLowerCase validTz = ?l) VALID_TIME_ZONES = None"
      using nv by (simp add: find_None_iff)
    have B: ?B
    proof (intro allI impI)
      fix v assume m: "(?l, v) \<in> set TIMEZONE_ALIASES"
      then have "map_of TIMEZONE_ALIASES ?l = Some v"
        using distinct_alias_keys by simp
      then have "objectGet TIMEZONE_ALIASES ?l = Own v"
        by (rule objectGet_aliases_Own)
      moreover have "v \<noteq> []"
        using m alias_values_nonempty by auto
      ultimately show "cleanTimeZone timeZone = Str v"
        using ne f by (simp add: cleanTimeZone_def Let_def)
    qed
    have CD: "?C \<and> ?D" if na: ?noAlias
    proof -
      have "map_of TIMEZONE_ALIASES ?l = None"
        using na by (simp add: map_of_eq_None_iff)
      then have g: "objectGet TIMEZONE_ALIASES ?l = Missing"
        using na by (intro objectGet_Missing) simp_all
      have r: "cleanTimeZone timeZone =
                 (case find ?P TIMEZONE_ALIASES of Some (alias, validTz) \<Rightarrow> Str validTz
                  | None \<Rightarrow> Str (trim timeZone))"
        using ne f g by (simp add: cleanTimeZone_def Let_def)
      have C: ?C
      proof (intro allI impI)
        fix i assume i: "i < length TIMEZONE_ALIASES"
          and h: "aliasOverlap ?l (fst (TIMEZONE_ALIASES ! i))
                  \<and> (\<forall>j<i. \<not> aliasOverlap ?l (fst (TIMEZONE_ALIASES ! j)))"
        have "find ?P TIMEZONE_ALIASES = Some (TIMEZONE_ALIASES ! i)"
          unfolding find_Some_iff using i h
          by (auto simp: split_beta intro!: exI [of _ i])
        then show "cleanTimeZone timeZone = Str (snd (TIMEZONE_ALIASES ! i))"
          by (simp add: r split_beta)
      qed
      have D: ?D
      proof
        assume "\<forall>a\<in>fst ` set TIMEZONE_ALIASES. \<not> aliasOverlap ?l a"
        then have "find ?P TIMEZONE_ALIASES = None"
          by (auto simp: find_None_iff)
        then show "cleanTimeZone timeZone = Str (trim timeZone)"
          by (simp add: r)
      qed
      from C D show ?thesis ..
    qed
    from B CD show ?thesis by blast
  qed
  from A rest cleanTimeZone_Central_Park show ?thesis by blast
qed

theorem C2_cleanTimeZone_resolution_witness:
  "''AST'' \<noteq> [] \<and> cleanTimeZone ''AST'' = Str ''Atlantic Time (Canada)''"
proof -
  have l: "toLowerCase (trim ''AST'') = ''ast''"
    by code_simp
  have 1: "\<forall>v\<in>set VALID_TIME_ZONES. toLowerCase v \<noteq> ''ast''"
  proof -
    have "''ast'' \<notin> set (map toLowerCase VALID_TIME_ZONES)"
      by (simp add: lower_valid)
    then show ?thesis
      by (force simp: image_iff)
  qed
  have 2: "(''ast'', ''Atlantic Time (Canada)'') \<in> set TIMEZONE_ALIASES"
    unfolding TIMEZONE_ALIASES_def by simp
  have ne: "''AST'' \<noteq> []"
    by simp
  show ?thesis
    using C2_cleanTimeZone_resolution [OF ne] 1 2 unfolding l by blast
qed

section \<open>Properties of the birthday parser\<close>

text \<open>
  C10: \<^verbatim>\<open>parseBirthday\<close> does not validate the range of the numbers. For an input
  \<open>A/B/YYYY\<close> (either separator may be a dash) with \<open>A > 12\<close> and \<open>B > 12\<close> it returns
  month \<open>A\<close> and day \<open>B\<close>, zero-padded to two digits, and not \<^verbatim>\<open>null\<close>; the month is
  greater than 12 and \<^verbatim>\<open>cleanBirthday\<close> renders it as the month of the
  \<^verbatim>\<open>MM/DD/YYYY\<close> template.
\<close>

theorem C10_parseBirthday_no_range_validation:
  assumes "list_all isDigit a" "1 \<le> length a" "length a \<le> 2" "12 < parseInt a"
      and "list_all isDigit b" "1 \<le> length b" "length b \<le> 2" "12 < parseInt b"
      and "list_all isDigit y" "length y = 4"
      and "isDateSeparator s1" "isDateSeparator s2"
  shows "parseBirthday (a @ s1 # b @ s2 # y)
           = Some \<lparr>month = padStart2 a, day = padStart2 b, year = y\<rparr>
       \<and> padStart2 a = a \<and> padStart2 b = b \<and> 12 < parseInt (padStart2 a)
       \<and> cleanBirthday (a @ s1 # b @ s2 # y) = a @ ''/'' @ b @ ''/'' @ y"
proof -
  let ?s = "a @ s1 # b @ s2 # y"
  have la: "length a = 2" and lb: "length b = 2"
    using assms by (auto intro: parseInt_gt_12_length)
  have hd: "\<not> isSpace (hd ?s)"
    using assms(1,2) by (cases a) (auto dest: isDigit_not_isSpace)
  have lst: "\<not> isSpace (last ?s)"
    using assms(9,10) by (cases y rule: rev_cases) (auto dest: isDigit_not_isSpace)
  have tr: "trim ?s = ?s"
    using hd lst by (intro trim_id) auto
  have ne: "?s \<noteq> []"
    by simp
  have p: "parseBirthday ?s = Some (parseSlash (a, b, y))"
    unfolding parseBirthday_def
    using slashMatch_shape [OF assms(1,2,3,5,6,7,9,10,11,12)] ne
    by (simp add: tr Let_def del: append_is_Nil_conv)
  have q: "parseSlash (a, b, y) = \<lparr>month = padStart2 a, day = padStart2 b, year = y\<rparr>"
    using assms(4,8) by (simp add: parseSlash_def Let_def)
  show ?thesis
    using assms(4) by (simp add: p q cleanBirthday_def formatBirthdayToTarget_def padStart2_two la lb)
qed

theorem C10_parseBirthday_no_range_validation_witness:
  "parseBirthday ''13/13/1990'' = Some \<lparr>month = ''13'', day = ''13'', year = ''1990''\<rparr>
   \<and> 12 < parseInt ''13''
   \<and> cleanBirthday ''13/13/1990'' = ''13/13/1990''"
  using C10_parseBirthday_no_range_validation
          [of "''13''" "''13''" "''1990''" "CHR ''/''" "CHR ''/''"]
  by (simp add: isDigit_def isDateSeparator_def parseInt_def digitVal_def padStart2_def)

section \<open>Properties of the duplicate detector\<close>

lemma emailRows_snoc:
  "emailRows (rows @ [r]) v =
     emailRows rows v @ (if emailKey r = Some v then [length rows] else [])"
proof -
  have "filter (\<lambda>i. emailKey ((rows @ [r]) ! i) = Some v) [0..<length rows]
        = filter (\<lambda>i. emailKey (rows ! i) = Some v) [0..<length rows]"
    by (rule filter_cong) (auto simp: nth_append)
  then show ?thesis
    by (simp add: emailRows_def)
qed

lemma emailMap_invariant:
  "distinct (map fst (fold addEmail (zip [0..<length rows] rows) []))
   \<and> (\<forall>v. map_of (fold addEmail (zip [0..<length rows] rows) []) v
            = (if v \<noteq> [] \<and> emailRows rows v \<noteq> [] then Some (emailRows rows v) else None))"
proof (induction rows rule: rev_induct)
  case Nil
  show ?case by (simp add: emailRows_def)
next
  case (snoc r rows)
  let ?m = "fold addEmail (zip [0..<length rows] rows) []"
  have z: "zip [0..<length (rows @ [r])] (rows @ [r]) = zip [0..<length rows] rows @ [(length rows, r)]"
    by simp
  have f: "fold addEmail (zip [0..<length (rows @ [r])] (rows @ [r])) [] = addEmail (length rows, r) ?m"
    unfolding z by simp
  from snoc have d: "distinct (map fst ?m)"
    and m: "\<And>v. map_of ?m v = (if v \<noteq> [] \<and> emailRows rows v \<noteq> [] then Some (emailRows rows v) else None)"
    by auto
  have 1: "distinct (map fst (addEmail (length rows, r) ?m))"
    using d by (simp add: addEmail_def Let_def distinct_update split: option.splits)
  have 2: "map_of (addEmail (length rows, r) ?m) v
            = (if v \<noteq> [] \<and> emailRows (rows @ [r]) v \<noteq> []
               then Some (emailRows (rows @ [r]) v) else None)" for v
    by (simp add: addEmail_def Let_def m emailRows_snoc update_conv'
             split: option.splits)
  show ?case
    unfolding f using 1 2 by blast
qed

lemma detectDuplicates_set:
  "set (detectDuplicates rows) =
     {\<lparr>field = Email, val = v, rowIndices = emailRows rows v\<rparr> | v. v \<noteq> [] \<and> 1 < length (emailRows rows v)}"
proof -
  let ?m = "fold addEmail (zip [0..<length rows] rows) []"
  have d: "distinct (map fst ?m)"
    and m: "\<And>v. map_of ?m v = (if v \<noteq> [] \<and> emailRows rows v \<noteq> [] then Some (emailRows rows v) else None)"
    using emailMap_invariant [of rows] by auto
  have s: "(v, is) \<in> set ?m \<longleftrightarrow> v \<noteq> [] \<and> emailRows rows v \<noteq> [] \<and> is = emailRows rows v" for v "is"
  proof -
    have "(v, is) \<in> set ?m \<longleftrightarrow> map_of ?m v = Some is"
      using d by simp
    then show ?thesis
      unfolding m by auto
  qed
  have "set (detectDuplicates rows) =
          (\<lambda>(v, indices). \<lparr>field = Email, val = v, rowIndices = indices\<rparr>) `
            {(v, is). (v, is) \<in> set ?m \<and> 1 < length is}"
    unfolding detectDuplicates_def Let_def by auto
  also have "\<dots> = {\<lparr>field = Email, val = v, rowIndices = emailRows rows v\<rparr> | v.
                      v \<noteq> [] \<and> 1 < length (emailRows rows v)}"
    unfolding s by (auto simp: image_iff)
  finally show ?thesis .
qed

lemma detectDuplicates_distinct: "distinct (map val (detectDuplicates rows))"
proof -
  let ?m = "fold addEmail (zip [0..<length rows] rows) []"
  have d: "distinct (map fst ?m)"
    using emailMap_invariant [of rows] by auto
  have "map val (detectDuplicates rows) = map fst (filter (\<lambda>(v, indices). length indices > 1) ?m)"
    by (simp add: detectDuplicates_def Let_def split_beta comp_def)
  then show ?thesis
    using d by (simp add: distinct_map_filter)
qed

text \<open>
  C8: \<^verbatim>\<open>detectDuplicates\<close> groups the row indices by the lower-cased, trimmed Email and
  emits one group with field \<open>Email\<close> for each value that occurs in at least two rows:
  every group holds exactly the indices of the rows with its value, there are at least
  two of them, no value has two groups, and every non-empty value that occurs in two or
  more rows has a group. Two rows with the Emails "A@B.com" and "a@b.com" form one group
  with two row indices.
\<close>

theorem C8_detectDuplicates_groups:
  "(\<forall>g\<in>set (detectDuplicates rows).
       field g = Email \<and> rowIndices g = emailRows rows (val g) \<and> 2 \<le> length (rowIndices g))
   \<and> distinct (map val (detectDuplicates rows))
   \<and> (\<forall>v. v \<noteq> [] \<and> 2 \<le> length (emailRows rows v)
          \<longrightarrow> (\<exists>g\<in>set (detectDuplicates rows). val g = v))
   \<and> detectDuplicates [[(''Email'', ''A@B.com'')], [(''Email'', ''a@b.com'')]]
        = [\<lparr>field = Email, val = ''a@b.com'', rowIndices = [0, 1]\<rparr>]"
proof -
  have 1: "\<forall>g\<in>set (detectDuplicates rows).
             field g = Email \<and> rowIndices g = emailRows rows (val g) \<and> 2 \<le> length (rowIndices g)"
    unfolding detectDuplicates_set by auto
  have 2: "\<forall>v. v \<noteq> [] \<and> 2 \<le> length (emailRows rows v)
               \<longrightarrow> (\<exists>g\<in>set (detectDuplicates rows). val g = v)"
    unfolding detectDuplicates_set by force
  have 3: "detectDuplicates [[(''Email'', ''A@B.com'')], [(''Email'', ''a@b.com'')]]
             = [\<lparr>field = Email, val = ''a@b.com'', rowIndices = [0, 1]\<rparr>]"
    by code_simp
  show ?thesis
    by (rule conjI [OF 1 conjI [OF detectDuplicates_distinct conjI [OF 2 3]]])
qed

theorem C8_detectDuplicates_groups_witness:
  "\<exists>g\<in>set (detectDuplicates [[(''Email'', ''A@B.com '')], [(''Email'', ''c@d.com'')],
                               [(''Email'', ''a@b.com'')]]).
      val g = ''a@b.com'' \<and> rowIndices g = [0, 2]"
proof -
  let ?rows = "[[(''Email'', ''A@B.com '')], [(''Email'', ''c@d.com'')],
                [(''Email'', ''a@b.com'')]]"
  note C8 = C8_detectDuplicates_groups [of ?rows]
  have e: "emailRows ?rows ''a@b.com'' = [0, 2]"
    by code_simp
  have h: "''a@b.com'' \<noteq> [] \<and> 2 \<le> length (emailRows ?rows ''a@b.com'')"
    unfolding e by simp
  from C8 [THEN conjunct2, THEN conjunct2, THEN conjunct1, THEN spec, THEN mp, OF h]
  obtain g where g: "g \<in> set (detectDuplicates ?rows)" "val g = ''a@b.com''"
    by (rule bexE)
  from C8 [THEN conjunct1, THEN bspec, OF g(1)]
  have "rowIndices g = emailRows ?rows (val g)"
    by (elim conjE)
  then have "rowIndices g = [0, 2]"
    unfolding g(2) e .
  with g show ?thesis
    by (intro bexI [of _ g] conjI)
qed

text \<open>
  C9: rows whose Email is empty or missing are never reported as duplicates: no group
  returned by \<^verbatim>\<open>detectDuplicates\<close> has an empty value, whatever the rows are, also when
  two or more rows have an empty Email.
\<close>

theorem C9_detectDuplicates_no_empty_value:
  "\<forall>g\<in>set (detectDuplicates rows). val g \<noteq> []"
  unfolding detectDuplicates_set by auto

theorem C9_detectDuplicates_no_empty_value_witness:
  "list_all (\<lambda>g. val g \<noteq> [])
     (detectDuplicates [[(''Email'', [])], [(''Email'', ''x@y.z'')], [(''Email'', ''  '')],
                        [(''Email'', [])], [(''Email'', ''X@Y.Z '')]])
   \<and> length (detectDuplicates [[(''Email'', [])], [(''Email'', ''x@y.z'')], [(''Email'', ''  '')],
                                [(''Email'', [])], [(''Email'', ''X@Y.Z '')]]) = 1"
proof -
  have "length (detectDuplicates [[(''Email'', [])], [(''Email'', ''x@y.z'')], [(''Email'', ''  '')],
                                  [(''Email'', [])], [(''Email'', ''X@Y.Z '')]]) = 1"
    by code_simp
  then show ?thesis
    unfolding list_all_iff by (intro conjI C9_detectDuplicates_no_empty_value)
qed

section \<open>Properties of the row processor\<close>

subsection \<open>Pruning, when every cell is a string\<close>

lemma trim_Nil_iff: "trim v = [] \<longleftrightarrow> list_all isSpace v"
proof -
  have a: "dropWhile isSpace v = []" if h: "\<forall>x\<in>set (dropWhile isSpace v). isSpace x"
  proof (rule ccontr)
    assume ne: "dropWhile isSpace v \<noteq> []"
    then have "\<not> isSpace (hd (dropWhile isSpace v))"
      by (rule hd_dropWhile)
    moreover have "hd (dropWhile isSpace v) \<in> set (dropWhile isSpace v)"
      using ne by (rule hd_in_set)
    ultimately show False
      using h by blast
  qed
  have "trim v = [] \<longleftrightarrow> (\<forall>x\<in>set (dropWhile isSpace v). isSpace x)"
    by (simp add: trim_def)
  also have "\<dots> \<longleftrightarrow> dropWhile isSpace v = []"
  proof
    assume "\<forall>x\<in>set (dropWhile isSpace v). isSpace x"
    then show "dropWhile isSpace v = []"
      by (rule a)
  next
    assume "dropWhile isSpace v = []"
    then show "\<forall>x\<in>set (dropWhile isSpace v). isSpace x"
      by (simp del: dropWhile_eq_Nil_conv)
  qed
  also have "\<dots> \<longleftrightarrow> list_all isSpace v"
    by (simp add: list_all_iff)
  finally show ?thesis .
qed

lemma nonBlank_iff: "nonBlank v \<longleftrightarrow> (\<exists>c\<in>set v. \<not> isSpace c)"
  by (auto simp: nonBlank_def trim_Nil_iff list_all_iff)

lemma hasData_strings:
  "Obj \<notin> set vs \<Longrightarrow> hasData vs = Inr (\<exists>v. Str v \<in> set vs \<and> nonBlank v)"
proof (induction vs)
  case Nil
  then show ?case by simp
next
  case (Cons c vs)
  then obtain s where c: "c = Str s"
    by (cases c) auto
  from Cons have "hasData vs = Inr (\<exists>v. Str v \<in> set vs \<and> nonBlank v)"
    by simp
  then show ?case
    by (cases "nonBlank s") (auto simp: c valueHasData_def)
qed

lemma hasData_row:
  assumes "Obj \<notin> snd ` set r"
  shows "hasData (map snd r) = Inr (rowHasData r)"
proof -
  have "(\<exists>v. Str v \<in> set (map snd r) \<and> nonBlank v) \<longleftrightarrow> rowHasData r"
    by (force simp: rowHasData_def nonBlank_iff)
  then show ?thesis
    using hasData_strings [of "map snd r"] assms by simp
qed

lemma filterRows_strings:
  "\<forall>r\<in>set rs. Obj \<notin> snd ` set r \<Longrightarrow>
   filterRows rs st =
     Inr (filter rowHasData rs,
          st\<lparr>emptyRowsRemoved := emptyRowsRemoved st + length (filter (\<lambda>r. \<not> rowHasData r) rs)\<rparr>)"
proof (induction rs arbitrary: st)
  case Nil
  then show ?case by simp
next
  case (Cons r rs)
  have h: "hasData (map snd r) = Inr (rowHasData r)"
    using Cons.prems by (intro hasData_row) simp
  have ih: "filterRows rs st' =
     Inr (filter rowHasData rs,
          st'\<lparr>emptyRowsRemoved := emptyRowsRemoved st' + length (filter (\<lambda>r. \<not> rowHasData r) rs)\<rparr>)"
    for st'
    using Cons.prems by (intro Cons.IH) simp
  show ?case
    by (cases "rowHasData r") (simp_all add: h ih)
qed

lemma addColumns_strings:
  "Obj \<notin> snd ` set r \<Longrightarrow>
   addColumns r cols = Inr (cols \<union> {k. \<exists>v. (k, Str v) \<in> set r \<and> nonBlank v})"
proof (induction r arbitrary: cols)
  case Nil
  then show ?case by simp
next
  case (Cons kc r)
  obtain k c where kc: "kc = (k, c)"
    by (cases kc)
  from Cons.prems kc obtain s where c: "c = Str s"
    by (cases c) auto
  have "addColumns r cols' = Inr (cols' \<union> {k. \<exists>v. (k, Str v) \<in> set r \<and> nonBlank v})" for cols'
    using Cons.prems by (intro Cons.IH) simp
  then show ?case
    by (auto simp: kc c valueHasData_def)
qed

lemma columnsWithData_strings:
  "\<forall>r\<in>set rs. Obj \<notin> snd ` set r \<Longrightarrow>
   columnsWithData rs cols =
     Inr (cols \<union> {k. \<exists>r\<in>set rs. \<exists>v. (k, Str v) \<in> set r \<and> nonBlank v})"
proof (induction rs arbitrary: cols)
  case Nil
  then show ?case by simp
next
  case (Cons r rs)
  have a: "addColumns r cols = Inr (cols \<union> {k. \<exists>v. (k, Str v) \<in> set r \<and> nonBlank v})"
    using Cons.prems by (intro addColumns_strings) simp
  have "columnsWithData rs cols' =
     Inr (cols' \<union> {k. \<exists>r\<in>set rs. \<exists>v. (k, Str v) \<in> set r \<and> nonBlank v})" for cols'
    using Cons.prems by (intro Cons.IH) simp
  then show ?case
    by (auto simp: a)
qed

lemma update_fresh: "k \<notin> fst ` set al \<Longrightarrow> AList.update k v al = al @ [(k, v)]"
  by (induction al) auto

lemma removeEmptyColumns_fold:
  "distinct (map fst r) \<Longrightarrow> fst ` set r \<inter> fst ` set acc = {} \<Longrightarrow>
   ''__proto__'' \<notin> fst ` set r \<Longrightarrow>
   fold (\<lambda>(key, v) cleanedRow. if key \<in> cols then setProp key v cleanedRow else cleanedRow) r acc
     = acc @ filter (\<lambda>(k, v). k \<in> cols) r"
proof (induction r arbitrary: acc)
  case Nil
  then show ?case by simp
next
  case (Cons kv r)
  obtain k v where kv: "kv = (k, v)" by (cases kv)
  have np: "k \<noteq> ''__proto__''"
    using Cons.prems(3) kv by auto
  have pr: "''__proto__'' \<notin> fst ` set r"
    using Cons.prems(3) by auto
  show ?case
  proof (cases "k \<in> cols")
    case True
    have fresh: "k \<notin> fst ` set acc"
      using Cons.prems(1,2) kv by auto
    have "fst ` set r \<inter> fst ` set (acc @ [(k, v)]) = {}"
      using Cons.prems(1,2) kv by auto
    with Cons.IH [of "acc @ [(k, v)]"] Cons.prems(1) True kv fresh pr
    show ?thesis
      by (simp add: update_fresh setProp_def np)
  next
    case False
    have "fst ` set r \<inter> fst ` set acc = {}"
      using Cons.prems(1,2) by auto
    with Cons.IH [of acc] Cons.prems(1) False kv pr
    show ?thesis by simp
  qed
qed

lemma removeEmptyColumns_eq:
  "distinct (map fst r) \<Longrightarrow> ''__proto__'' \<notin> fst ` set r \<Longrightarrow>
   removeEmptyColumns cols r = filter (\<lambda>(k, v). k \<in> cols) r"
  using removeEmptyColumns_fold [of r "[]" cols] by (simp add: removeEmptyColumns_def)

subsection \<open>One mapping applied to one row\<close>

text \<open>Only a Time Zone cell can be cleaned to a value that is not a string.\<close>

lemma cleanField_string: "t \<noteq> ''Time Zone'' \<Longrightarrow> \<exists>s. cleanField t x = Str s"
  by (simp add: cleanField_def)

text \<open>
  A raw value that is inherited from \<^verbatim>\<open>Object.prototype\<close> is not an empty value, and
  neither is its text; the text is not empty and has no white space at its ends.
\<close>

lemma inherited_values:
  "list_all (\<lambda>key. \<not> isEmptyValue (Some (inheritedText key))
                    \<and> inheritedText key \<noteq> []
                    \<and> trim (inheritedText key) = inheritedText key)
            OBJECT_PROTOTYPE_KEYS"
  by code_simp

lemma cleanCell_modified:
  "t \<noteq> [] \<Longrightarrow>
   snd (cleanCell raw (Some t))
     = (fst (cleanCell raw (Some t)) \<noteq> Str (trim (case raw of None \<Rightarrow> [] | Some s \<Rightarrow> s)))"
  by (auto simp: cleanCell_def Let_def)

lemma countField_fields:
  "totalCellsModified (countField t st) = totalCellsModified st"
  "emptyValuesCleared (countField t st) = emptyValuesCleared st"
  "totalRows (countField t st) = totalRows st"
  "addressesConsolidated (countField t st) = addressesConsolidated st"
  "emptyRowsRemoved (countField t st) = emptyRowsRemoved st"
  "emptyColumnsRemoved (countField t st) = emptyColumnsRemoved st"
  "emailsCleaned (countField t st) = emailsCleaned st + (if t = ''Email'' then 1 else 0)"
  "phonesNormalized (countField t st) = phonesNormalized st + (if t = ''Phone'' then 1 else 0)"
  "namesToProperCase (countField t st)
     = namesToProperCase st + (if t = ''First Name'' \<or> t = ''Last Name'' then 1 else 0)"
  "statusValidated (countField t st) = statusValidated st + (if t = ''Status'' then 1 else 0)"
  "timeZoneValidated (countField t st) = timeZoneValidated st + (if t = ''Time Zone'' then 1 else 0)"
  "tagsFormatted (countField t st) = tagsFormatted st + (if t = ''Tags'' then 1 else 0)"
  "birthdayFormatted (countField t st) = birthdayFormatted st + (if t = ''Birthday'' then 1 else 0)"
  by (simp_all add: countField_def TARGET_HEADERS_def)

lemma applied_iff:
  "applied m \<longleftrightarrow> (\<exists>t. targetHeader m = Some t \<and> t \<noteq> [] \<and> sourceHeader m \<noteq> [])"
  by (cases "targetHeader m") (auto simp: applied_def)

lemma applyMapping_skip:
  "\<not> applied m \<Longrightarrow> applyMapping rawRow m (cr, st) = (cr, st)"
  by (auto simp: applyMapping_def applied_def split: option.splits)

lemma applyMapping_applied:
  assumes "targetHeader m = Some t" "t \<noteq> []" "sourceHeader m \<noteq> []"
  shows "applyMapping rawRow m (cr, st) =
     (setProp t (cleanedOf rawRow m) cr,
      if cleanedOf rawRow m \<noteq> Str (originalOf rawRow m) then
        (let st2 = countField t (st\<lparr>totalCellsModified := totalCellsModified st + 1\<rparr>)
         in if cleanedOf rawRow m = Str []
            then st2\<lparr>emptyValuesCleared := emptyValuesCleared st2 + 1\<rparr> else st2)
      else st)"
proof -
  let ?raw = "rowGet rawRow (sourceHeader m)"
  have truthy: "?raw \<noteq> None \<and> ?raw \<noteq> Some []" if "originalOf rawRow m \<noteq> []"
    using that unfolding originalOf_def by (cases ?raw) (auto simp: trim_def)
  have o: "Str [] \<noteq> Str (originalOf rawRow m) \<Longrightarrow> originalOf rawRow m \<noteq> []"
    by auto
  show ?thesis
    using assms cleanCell_modified [OF assms(2), of ?raw] truthy o
    by (auto simp: applyMapping_def Let_def split_beta cleanedOf_def originalOf_def)
qed

text \<open>What one mapping adds to each counter.\<close>

lemma applyMapping_counters:
  "totalCellsModified (snd (applyMapping rawRow m (cr, st)))
     = totalCellsModified st + (if cellModified rawRow m then 1 else 0)
   \<and> emptyValuesCleared (snd (applyMapping rawRow m (cr, st)))
     = emptyValuesCleared st + (if cellCleared rawRow m then 1 else 0)
   \<and> emailsCleaned (snd (applyMapping rawRow m (cr, st)))
     = emailsCleaned st
         + (if cellModified rawRow m \<and> targetHeader m = Some ''Email'' then 1 else 0)
   \<and> phonesNormalized (snd (applyMapping rawRow m (cr, st)))
     = phonesNormalized st
         + (if cellModified rawRow m \<and> targetHeader m = Some ''Phone'' then 1 else 0)
   \<and> namesToProperCase (snd (applyMapping rawRow m (cr, st)))
     = namesToProperCase st
         + (if cellModified rawRow m
               \<and> (targetHeader m = Some ''First Name'' \<or> targetHeader m = Some ''Last Name'')
            then 1 else 0)
   \<and> statusValidated (snd (applyMapping rawRow m (cr, st)))
     = statusValidated st
         + (if cellModified rawRow m \<and> targetHeader m = Some ''Status'' then 1 else 0)
   \<and> timeZoneValidated (snd (applyMapping rawRow m (cr, st)))
     = timeZoneValidated st
         + (if cellModified rawRow m \<and> targetHeader m = Some ''Time Zone'' then 1 else 0)
   \<and> tagsFormatted (snd (applyMapping rawRow m (cr, st)))
     = tagsFormatted st
         + (if cellModified rawRow m \<and> targetHeader m = Some ''Tags'' then 1 else 0)
   \<and> birthdayFormatted (snd (applyMapping rawRow m (cr, st)))
     = birthdayFormatted st
         + (if cellModified rawRow m \<and> targetHeader m = Some ''Birthday'' then 1 else 0)
   \<and> addressesConsolidated (snd (applyMapping rawRow m (cr, st))) = addressesConsolidated st
   \<and> emptyRowsRemoved (snd (applyMapping rawRow m (cr, st))) = emptyRowsRemoved st"
proof (cases "applied m")
  case False
  then show ?thesis
    by (simp add: applyMapping_skip cellModified_def cellCleared_def)
next
  case True
  then obtain t where t: "targetHeader m = Some t" "t \<noteq> []" "sourceHeader m \<noteq> []"
    unfolding applied_iff by blast
  show ?thesis
    unfolding applyMapping_applied [OF t]
    using True t
    by (simp add: cellModified_def cellCleared_def Let_def countField_fields)
qed

subsection \<open>The counters over all mappings and rows\<close>

lemma fold_counter:
  fixes F :: "CleaningStats \<Rightarrow> nat"
  assumes step: "\<And>m cr st. F (snd (applyMapping r m (cr, st))) = F st + (if P m then 1 else 0)"
  shows "F (snd (fold (applyMapping r) ms acc)) = F (snd acc) + length (filter P ms)"
proof (induction ms arbitrary: acc)
  case Nil
  then show ?case by simp
next
  case (Cons m ms)
  obtain cr st where acc: "acc = (cr, st)"
    by (cases acc)
  show ?case
    using Cons.IH [of "applyMapping r m (cr, st)"] step [of m cr st]
    by (simp add: acc)
qed

lemma cleanRows_counter:
  fixes F :: "CleaningStats \<Rightarrow> nat"
  assumes step: "\<And>r m cr st. F (snd (applyMapping r m (cr, st))) = F st + (if P r m then 1 else 0)"
  shows "F (snd (cleanRows hs ms rows st)) = F st + countCells P rows ms"
proof (induction rows arbitrary: st)
  case Nil
  then show ?case
    by (simp add: countCells_def)
next
  case (Cons r rows)
  obtain cr st1 where c: "cleanRow hs ms r st = (cr, st1)"
    by (cases "cleanRow hs ms r st")
  have "F (snd (cleanRow hs ms r st)) = F st + length (filter (P r) ms)"
    unfolding cleanRow_def using fold_counter [of F r "P r", OF step] by simp
  then have 1: "F st1 = F st + length (filter (P r) ms)"
    by (simp add: c)
  show ?case
    using Cons.IH [of st1] 1
    by (simp add: c split_beta countCells_def)
qed

lemma countCells_False: "countCells (\<lambda>r m. False) rows ms = 0"
  by (simp add: countCells_def)

subsection \<open>The keys of the rows that are built\<close>

lemma setProp_keys:
  "map fst (setProp k v al) =
     (if k = ''__proto__'' \<or> k \<in> set (map fst al) then map fst al else map fst al @ [k])"
  by (simp add: setProp_def update_keys)

lemma setProp_entries:
  "kc \<in> set (setProp k v al) \<Longrightarrow> kc = (k, v) \<or> kc \<in> set al"
  by (induction al) (auto simp: setProp_def split: if_splits)

lemma applyMapping_keys:
  "map fst (fst (applyMapping rawRow m (cr, st))) = keyStep m (map fst cr)"
proof (cases "applied m")
  case False
  then show ?thesis
    by (auto simp: applyMapping_skip keyStep_def applied_def split: option.splits)
next
  case True
  then obtain t where t: "targetHeader m = Some t" "t \<noteq> []" "sourceHeader m \<noteq> []"
    unfolding applied_iff by blast
  show ?thesis
    unfolding applyMapping_applied [OF t] using t
    by (simp add: keyStep_def setProp_keys)
qed

lemma fold_applyMapping_keys:
  "map fst (fst (fold (applyMapping rawRow) ms acc)) = fold keyStep ms (map fst (fst acc))"
proof (induction ms arbitrary: acc)
  case Nil
  then show ?case by simp
next
  case (Cons m ms)
  obtain cr st where acc: "acc = (cr, st)" by (cases acc)
  show ?case
    using Cons.IH [of "applyMapping rawRow m (cr, st)"]
    by (simp add: acc applyMapping_keys)
qed

lemma keyStep_distinct: "distinct ks \<Longrightarrow> distinct (keyStep m ks)"
  by (auto simp: keyStep_def split: option.splits)

lemma keyStep_mono: "set ks \<subseteq> set (keyStep m ks)"
  by (auto simp: keyStep_def split: option.splits)

lemma keyStep_proto: "''__proto__'' \<notin> set ks \<Longrightarrow> ''__proto__'' \<notin> set (keyStep m ks)"
  by (auto simp: keyStep_def split: option.splits)

lemma fold_keyStep:
  "distinct ks \<Longrightarrow> ''__proto__'' \<notin> set ks \<Longrightarrow>
   distinct (fold keyStep ms ks) \<and> set ks \<subseteq> set (fold keyStep ms ks)
   \<and> ''__proto__'' \<notin> set (fold keyStep ms ks)"
proof (induction ms arbitrary: ks)
  case Nil
  then show ?case by simp
next
  case (Cons m ms)
  have "distinct (keyStep m ks)" "''__proto__'' \<notin> set (keyStep m ks)"
    using Cons.prems by (simp_all add: keyStep_distinct keyStep_proto)
  from Cons.IH [OF this] keyStep_mono [of ks m]
  show ?case
    by auto
qed

lemma setProp_key_set:
  "fst ` set (setProp k v al) = (insert k (fst ` set al)) - ({''__proto__''} - fst ` set al)"
proof -
  have "set (map fst (setProp k v al))
          = (insert k (set (map fst al))) - ({''__proto__''} - set (map fst al))"
    by (simp only: setProp_keys) auto
  then show ?thesis
    by simp
qed

lemma setProp_distinct: "distinct (map fst al) \<Longrightarrow> distinct (map fst (setProp k v al))"
  by (simp add: setProp_keys)

lemma init_keys:
  "distinct (map fst acc) \<Longrightarrow> ''__proto__'' \<notin> fst ` set acc \<Longrightarrow>
   distinct (map fst (fold (\<lambda>header cleanedRow. setProp header v cleanedRow) hs acc))
   \<and> fst ` set (fold (\<lambda>header cleanedRow. setProp header v cleanedRow) hs acc)
       = (set hs - {''__proto__''}) \<union> fst ` set acc"
proof (induction hs arbitrary: acc)
  case Nil
  then show ?case by simp
next
  case (Cons h hs)
  have d: "distinct (map fst (setProp h v acc))"
    using Cons.prems(1) by (rule setProp_distinct)
  have p: "''__proto__'' \<notin> fst ` set (setProp h v acc)"
    using Cons.prems(2) by (simp only: setProp_key_set) auto
  from Cons.IH [OF d p] Cons.prems(2) show ?case
    by (simp only: setProp_key_set) auto
qed

lemma init_strings:
  "Obj \<notin> snd ` set acc \<Longrightarrow>
   Obj \<notin> snd ` set (fold (\<lambda>header cleanedRow. setProp header (Str []) cleanedRow) hs acc)"
proof (induction hs arbitrary: acc)
  case Nil
  then show ?case by simp
next
  case (Cons h hs)
  have "Obj \<notin> snd ` set (setProp h (Str []) acc)"
    using Cons.prems by (auto dest!: setProp_entries)
  from Cons.IH [OF this] show ?case
    by simp
qed

lemma collectTargetHeaders_fold:
  "set hs \<subseteq> set (fold (\<lambda>m allTargetHeaders.
             (case targetHeader m of
                None \<Rightarrow> allTargetHeaders
              | Some t \<Rightarrow>
                  if t \<noteq> [] \<and> isCustom m \<and> t \<notin> set allTargetHeaders
                  then allTargetHeaders @ [t] else allTargetHeaders)) ms hs)"
proof (induction ms arbitrary: hs)
  case Nil
  then show ?case by simp
next
  case (Cons m ms)
  show ?case
  proof (cases "targetHeader m")
    case None
    then show ?thesis
      using Cons.IH [of hs] by simp
  next
    case (Some t)
    show ?thesis
    proof (cases "t \<noteq> [] \<and> isCustom m \<and> t \<notin> set hs")
      case True
      have "set hs \<subseteq> set (hs @ [t])"
        by auto
      also note Cons.IH [of "hs @ [t]"]
      finally show ?thesis
        using Some True by simp
    next
      case False
      then show ?thesis
        using Some Cons.IH [of hs] by auto
    qed
  qed
qed

lemma collectTargetHeaders_sup: "set TARGET_HEADERS \<subseteq> set (collectTargetHeaders ms)"
  unfolding collectTargetHeaders_def by (rule collectTargetHeaders_fold)

lemma outputKeys_props:
  "distinct (outputKeys ms) \<and> set TARGET_HEADERS \<subseteq> set (outputKeys ms)
   \<and> ''__proto__'' \<notin> set (outputKeys ms)"
proof -
  let ?init = "fold (\<lambda>header cleanedRow. setProp header (Str []) cleanedRow)
                    (collectTargetHeaders ms) ([] :: jsRow)"
  have d: "distinct (map fst ?init)"
    and s: "set (map fst ?init) = set (collectTargetHeaders ms) - {''__proto__''}"
    using init_keys [of "[]" "Str []" "collectTargetHeaders ms"] by auto
  have p: "''__proto__'' \<notin> set (map fst ?init)"
    unfolding s by simp
  have t: "''__proto__'' \<notin> set TARGET_HEADERS"
    by (simp add: TARGET_HEADERS_def)
  have "set TARGET_HEADERS \<subseteq> set (map fst ?init)"
    unfolding s using collectTargetHeaders_sup [of ms] t by auto
  with fold_keyStep [OF d p, of ms]
  show ?thesis
    unfolding outputKeys_def by blast
qed

lemma cleanRows_keys:
  "length (fst (cleanRows (collectTargetHeaders ms) ms rows st)) = length rows
   \<and> (\<forall>r\<in>set (fst (cleanRows (collectTargetHeaders ms) ms rows st)). map fst r = outputKeys ms)"
proof (induction rows arbitrary: st)
  case Nil
  then show ?case by simp
next
  case (Cons rawRow rows)
  obtain cr st1 where c: "cleanRow (collectTargetHeaders ms) ms rawRow st = (cr, st1)"
    by (cases "cleanRow (collectTargetHeaders ms) ms rawRow st")
  have "map fst (fst (cleanRow (collectTargetHeaders ms) ms rawRow st)) = outputKeys ms"
    by (simp add: cleanRow_def outputKeys_def fold_applyMapping_keys)
  then have p: "map fst cr = outputKeys ms"
    by (simp add: c)
  show ?case
    using Cons.IH [of st1] p
    by (auto simp: c split_beta)
qed

subsection \<open>When every cleaned value is a string\<close>

lemma cleanTimeZone_string:
  assumes "toLowerCase (trim x) \<notin> set OBJECT_PROTOTYPE_KEYS"
  shows "cleanTimeZone x \<noteq> Obj"
proof -
  have "objectGet TIMEZONE_ALIASES (toLowerCase (trim x)) \<noteq> Inherited"
    using assms by (simp add: objectGet_def split: option.splits)
  then show ?thesis
    by (auto simp: cleanTimeZone_def Let_def split: option.splits lookup.splits)
qed

lemma cleanedOf_string:
  assumes "targetHeader m = Some ''Time Zone'' \<longrightarrow>
             toLowerCase (originalOf r m) \<notin> set OBJECT_PROTOTYPE_KEYS"
  shows "cleanedOf r m \<noteq> Obj"
proof (cases "targetHeader m = Some ''Time Zone''")
  case True
  with assms have "toLowerCase (trim (originalOf r m)) \<notin> set OBJECT_PROTOTYPE_KEYS"
    by (simp add: originalOf_def trim_trim)
  then have "cleanTimeZone (originalOf r m) \<noteq> Obj"
    by (rule cleanTimeZone_string)
  then show ?thesis
    using True
    by (simp add: cleanedOf_def cleanCell_def Let_def cleanField_def TARGET_HEADERS_def
          originalOf_def)
next
  case False
  then show ?thesis
    by (auto simp: cleanedOf_def cleanCell_def Let_def cleanField_def split: option.splits)
qed

lemma applyMapping_strings:
  assumes "Obj \<notin> snd ` set cr"
      and "targetHeader m = Some ''Time Zone'' \<longrightarrow>
             toLowerCase (originalOf r m) \<notin> set OBJECT_PROTOTYPE_KEYS"
  shows "Obj \<notin> snd ` set (fst (applyMapping r m (cr, st)))"
proof (cases "applied m")
  case False
  then show ?thesis
    using assms(1) by (simp add: applyMapping_skip)
next
  case True
  then obtain t where t: "targetHeader m = Some t" "t \<noteq> []" "sourceHeader m \<noteq> []"
    unfolding applied_iff by blast
  have "cleanedOf r m \<noteq> Obj"
    using assms(2) by (rule cleanedOf_string)
  then show ?thesis
    unfolding applyMapping_applied [OF t] using assms(1)
    by (auto dest!: setProp_entries)
qed

lemma fold_applyMapping_strings:
  assumes "\<forall>m\<in>set ms. targetHeader m = Some ''Time Zone'' \<longrightarrow>
             toLowerCase (originalOf r m) \<notin> set OBJECT_PROTOTYPE_KEYS"
      and "Obj \<notin> snd ` set (fst acc)"
  shows "Obj \<notin> snd ` set (fst (fold (applyMapping r) ms acc))"
  using assms
proof (induction ms arbitrary: acc)
  case Nil
  then show ?case by simp
next
  case (Cons m ms)
  obtain cr st where acc: "acc = (cr, st)" by (cases acc)
  have "Obj \<notin> snd ` set (fst (applyMapping r m (cr, st)))"
    using Cons.prems by (intro applyMapping_strings) (simp_all add: acc)
  then show ?case
    using Cons.IH [of "applyMapping r m (cr, st)"] Cons.prems(1)
    by (simp add: acc)
qed

lemma cleanRows_strings:
  assumes "plainTimeZones rows ms"
  shows "\<forall>r\<in>set (fst (cleanRows hs ms rows st)). Obj \<notin> snd ` set r"
  using assms
proof (induction rows arbitrary: st)
  case Nil
  then show ?case by simp
next
  case (Cons rawRow rows)
  obtain cr st1 where c: "cleanRow hs ms rawRow st = (cr, st1)"
    by (cases "cleanRow hs ms rawRow st")
  from Cons.prems have h: "\<forall>m\<in>set ms. targetHeader m = Some ''Time Zone'' \<longrightarrow>
             toLowerCase (originalOf rawRow m) \<notin> set OBJECT_PROTOTYPE_KEYS"
    and rest: "plainTimeZones rows ms"
    by (simp_all add: plainTimeZones_def list_all_iff)
  have "Obj \<notin> snd ` set (fst (cleanRow hs ms rawRow st))"
    unfolding cleanRow_def
    by (rule fold_applyMapping_strings [OF h]) (simp add: init_strings)
  then have "Obj \<notin> snd ` set cr"
    by (simp add: c)
  then show ?case
    using Cons.IH [OF rest, of st1]
    by (auto simp: c split_beta)
qed

subsection \<open>What \<open>processData\<close> returns\<close>

lemma processData_returns:
  assumes "plainTimeZones rows ms"
  shows "processData rows ms =
     (let built = fst (cleanRows (collectTargetHeaders ms) ms rows (initialStats (length rows)));
          st1 = snd (cleanRows (collectTargetHeaders ms) ms rows (initialStats (length rows)));
          kept = filter rowHasData built;
          cols = {k. \<exists>r\<in>set kept. \<exists>v. (k, Str v) \<in> set r \<and> nonBlank v}
      in Inr (map (filter (\<lambda>(k, v). k \<in> cols)) kept,
              st1\<lparr>emptyRowsRemoved :=
                    emptyRowsRemoved st1 + length (filter (\<lambda>r. \<not> rowHasData r) built),
                  emptyColumnsRemoved :=
                    length (filter (\<lambda>col. col \<notin> cols) (if kept = [] then [] else outputKeys ms)),
                  totalRows := length kept\<rparr>))"
proof -
  let ?hs = "collectTargetHeaders ms"
  let ?K = "outputKeys ms"
  obtain built st1 where cr: "cleanRows ?hs ms rows (initialStats (length rows)) = (built, st1)"
    by (cases "cleanRows ?hs ms rows (initialStats (length rows))")
  let ?kept = "filter rowHasData built"
  let ?cols = "{k. \<exists>r\<in>set ?kept. \<exists>v. (k, Str v) \<in> set r \<and> nonBlank v}"
  have strs: "\<forall>r\<in>set built. Obj \<notin> snd ` set r"
    using cleanRows_strings [OF assms, of ?hs "initialStats (length rows)"] by (simp add: cr)
  then have kstrs: "\<forall>r\<in>set ?kept. Obj \<notin> snd ` set r"
    by simp
  have keys: "\<forall>r\<in>set built. map fst r = ?K"
    using cleanRows_keys [of ms rows "initialStats (length rows)"] by (simp add: cr)
  have K: "distinct ?K" "''__proto__'' \<notin> set ?K"
    using outputKeys_props [of ms] by simp_all
  have f: "filterRows built st1 =
     Inr (?kept, st1\<lparr>emptyRowsRemoved :=
                     emptyRowsRemoved st1 + length (filter (\<lambda>r. \<not> rowHasData r) built)\<rparr>)"
    using strs by (rule filterRows_strings)
  have c: "columnsWithData ?kept {} = Inr ?cols"
    using columnsWithData_strings [OF kstrs, of "{}"] by simp
  have rem: "map (removeEmptyColumns ?cols) ?kept = map (filter (\<lambda>(k, v). k \<in> ?cols)) ?kept"
  proof (rule map_cong [OF refl])
    fix r assume "r \<in> set ?kept"
    then have "map fst r = ?K"
      using keys by simp
    then have "distinct (map fst r)" "''__proto__'' \<notin> fst ` set r"
      using K by (simp_all flip: set_map)
    then show "removeEmptyColumns ?cols r = filter (\<lambda>(k, v). k \<in> ?cols) r"
      by (rule removeEmptyColumns_eq)
  qed
  have allc: "(case ?kept of [] \<Rightarrow> [] | r # _ \<Rightarrow> map fst r) = (if ?kept = [] then [] else ?K)"
  proof (cases ?kept)
    case Nil
    then show ?thesis by simp
  next
    case (Cons r rs)
    then have "r \<in> set ?kept"
      by simp
    then have "map fst r = ?K"
      using keys by simp
    then show ?thesis
      using Cons by simp
  qed
  show ?thesis
    unfolding processData_def Let_def cr split_conv f sum.case c rem allc fst_conv snd_conv
    by simp
qed

subsection \<open>The statistics that \<open>processData\<close> returns\<close>

lemma initialStats_fields:
  "emailsCleaned (initialStats n) = 0" "phonesNormalized (initialStats n) = 0"
  "emptyValuesCleared (initialStats n) = 0" "namesToProperCase (initialStats n) = 0"
  "totalCellsModified (initialStats n) = 0" "statusValidated (initialStats n) = 0"
  "timeZoneValidated (initialStats n) = 0" "tagsFormatted (initialStats n) = 0"
  "birthdayFormatted (initialStats n) = 0" "addressesConsolidated (initialStats n) = 0"
  "emptyRowsRemoved (initialStats n) = 0"
  by (simp_all add: initialStats_def)

lemma cleanRows_stats:
  fixes hs ms rows n
  defines "st \<equiv> snd (cleanRows hs ms rows (initialStats n))"
  shows "totalCellsModified st = countCells cellModified rows ms"
    and "emptyValuesCleared st = countCells cellCleared rows ms"
    and "emailsCleaned st
           = countCells (\<lambda>r m. cellModified r m \<and> targetHeader m = Some ''Email'') rows ms"
    and "phonesNormalized st
           = countCells (\<lambda>r m. cellModified r m \<and> targetHeader m = Some ''Phone'') rows ms"
    and "namesToProperCase st
           = countCells (\<lambda>r m. cellModified r m
                 \<and> (targetHeader m = Some ''First Name'' \<or> targetHeader m = Some ''Last Name''))
               rows ms"
    and "statusValidated st
           = countCells (\<lambda>r m. cellModified r m \<and> targetHeader m = Some ''Status'') rows ms"
    and "timeZoneValidated st
           = countCells (\<lambda>r m. cellModified r m \<and> targetHeader m = Some ''Time Zone'') rows ms"
    and "tagsFormatted st
           = countCells (\<lambda>r m. cellModified r m \<and> targetHeader m = Some ''Tags'') rows ms"
    and "birthdayFormatted st
           = countCells (\<lambda>r m. cellModified r m \<and> targetHeader m = Some ''Birthday'') rows ms"
    and "addressesConsolidated st = 0"
    and "emptyRowsRemoved st = 0"
proof -
  note c = applyMapping_counters
  show "totalCellsModified st = countCells cellModified rows ms"
    unfolding st_def
    using cleanRows_counter [of totalCellsModified cellModified hs ms rows "initialStats n"]
      c [THEN conjunct1]
    by (simp add: initialStats_fields)
  show "emptyValuesCleared st = countCells cellCleared rows ms"
    unfolding st_def
    using cleanRows_counter [of emptyValuesCleared cellCleared hs ms rows "initialStats n"]
      c [THEN conjunct2, THEN conjunct1]
    by (simp add: initialStats_fields)
  note c = c [THEN conjunct2, THEN conjunct2]
  show "emailsCleaned st
           = countCells (\<lambda>r m. cellModified r m \<and> targetHeader m = Some ''Email'') rows ms"
    unfolding st_def
    using cleanRows_counter [of emailsCleaned
        "\<lambda>r m. cellModified r m \<and> targetHeader m = Some ''Email''" hs ms rows "initialStats n"]
      c [THEN conjunct1]
    by (simp add: initialStats_fields)
  note c = c [THEN conjunct2]
  show "phonesNormalized st
           = countCells (\<lambda>r m. cellModified r m \<and> targetHeader m = Some ''Phone'') rows ms"
    unfolding st_def
    using cleanRows_counter [of phonesNormalized
        "\<lambda>r m. cellModified r m \<and> targetHeader m = Some ''Phone''" hs ms rows "initialStats n"]
      c [THEN conjunct1]
    by (simp add: initialStats_fields)
  note c = c [THEN conjunct2]
  show "namesToProperCase st
           = countCells (\<lambda>r m. cellModified r m
                 \<and> (targetHeader m = Some ''First Name'' \<or> targetHeader m = Some ''Last Name''))
               rows ms"
    unfolding st_def
    using cleanRows_counter [of namesToProperCase
        "\<lambda>r m. cellModified r m
                 \<and> (targetHeader m = Some ''First Name'' \<or> targetHeader m = Some ''Last Name'')"
        hs ms rows "initialStats n"]
      c [THEN conjunct1]
    by (simp add: initialStats_fields)
  note c = c [THEN conjunct2]
  show "statusValidated st
           = countCells (\<lambda>r m. cellModified r m \<and> targetHeader m = Some ''Status'') rows ms"
    unfolding st_def
    using cleanRows_counter [of statusValidated
        "\<lambda>r m. cellModified r m \<and> targetHeader m = Some ''Status''" hs ms rows "initialStats n"]
      c [THEN conjunct1]
    by (simp add: initialStats_fields)
  note c = c [THEN conjunct2]
  show "timeZoneValidated st
           = countCells (\<lambda>r m. cellModified r m \<and> targetHeader m = Some ''Time Zone'') rows ms"
    unfolding st_def
    using cleanRows_counter [of timeZoneValidated
        "\<lambda>r m. cellModified r m \<and> targetHeader m = Some ''Time Zone''" hs ms rows "initialStats n"]
      c [THEN conjunct1]
    by (simp add: initialStats_fields)
  note c = c [THEN conjunct2]
  show "tagsFormatted st
           = countCells (\<lambda>r m. cellModified r m \<and> targetHeader m = Some ''Tags'') rows ms"
    unfolding st_def
    using cleanRows_counter [of tagsFormatted
        "\<lambda>r m. cellModified r m \<and> targetHeader m = Some ''Tags''" hs ms rows "initialStats n"]
      c [THEN conjunct1]
    by (simp add: initialStats_fields)
  note c = c [THEN conjunct2]
  show "birthdayFormatted st
           = countCells (\<lambda>r m. cellModified r m \<and> targetHeader m = Some ''Birthday'') rows ms"
    unfolding st_def
    using cleanRows_counter [of birthdayFormatted
        "\<lambda>r m. cellModified r m \<and> targetHeader m = Some ''Birthday''" hs ms rows "initialStats n"]
      c [THEN conjunct1]
    by (simp add: initialStats_fields)
  note c = c [THEN conjunct2]
  show "addressesConsolidated st = 0"
    unfolding st_def
    using cleanRows_counter [of addressesConsolidated "\<lambda>r m. False" hs ms rows "initialStats n"]
      c [THEN conjunct1]
    by (simp add: initialStats_fields countCells_False)
  show "emptyRowsRemoved st = 0"
    unfolding st_def
    using cleanRows_counter [of emptyRowsRemoved "\<lambda>r m. False" hs ms rows "initialStats n"]
      c [THEN conjunct2]
    by (simp add: initialStats_fields countCells_False)
qed

lemma processData_stats:
  assumes "plainTimeZones rows ms"
  shows "\<exists>cleanedData x y z.
           processData rows ms
             = Inr (cleanedData,
                    (snd (cleanRows (collectTargetHeaders ms) ms rows (initialStats (length rows))))
                      \<lparr>emptyRowsRemoved := x, emptyColumnsRemoved := y, totalRows := z\<rparr>)"
  unfolding processData_returns [OF assms] Let_def
  by (intro exI) (rule refl)

lemma cellCleared_iff:
  "cellCleared r m \<longleftrightarrow> applied m \<and> cleanedOf r m = Str [] \<and> originalOf r m \<noteq> []"
  by (auto simp: cellCleared_def cellModified_def)

text \<open>
  A Time Zone cell that names an inherited property of the alias table makes
  \<^verbatim>\<open>processData\<close> throw: the cleaned value is the inherited function, and the pruning
  step calls its \<^verbatim>\<open>trim\<close>.
\<close>

lemma processData_TypeError:
  "processData [[(''Zone'', ''Constructor'')]]
     [\<lparr>sourceHeader = ''Zone'', targetHeader = Some ''Time Zone'', isCustom = False\<rparr>]
   = Inl TypeError"
  by code_simp

text \<open>
  C6 (as stated): whenever the cleaned result is the empty string and the raw cell value
  was truthy, for instance a string of white space only, \<^verbatim>\<open>emptyValuesCleared\<close> is
  incremented. The code does not: the increment sits inside \<^verbatim>\<open>if (wasModified)\<close>, and a
  cell of white space only is trimmed to the empty string before the comparison, so it
  is not modified and not counted.
\<close>

theorem C6_emptyValuesCleared_counterexample:
  "fst (cleanCell (Some ''   '') (Some ''Phone'')) = Str []
   \<and> rowGet [(''Mobile'', ''   ''), (''Mail'', ''a@b.c'')] ''Mobile'' = Some ''   ''
   \<and> (case processData [[(''Mobile'', ''   ''), (''Mail'', ''a@b.c'')]]
                [\<lparr>sourceHeader = ''Mobile'', targetHeader = Some ''Phone'', isCustom = False\<rparr>,
                 \<lparr>sourceHeader = ''Mail'', targetHeader = Some ''Email'', isCustom = False\<rparr>] of
         Inl e \<Rightarrow> None
       | Inr (cleanedData, stats) \<Rightarrow> Some (emptyValuesCleared stats, totalCellsModified stats))
      = Some (0, 0)"
  by code_simp

text \<open>
  C6 (amended): when no Time Zone cell names an inherited property of the alias table,
  \<^verbatim>\<open>processData\<close> returns, and in the statistics it returns \<^verbatim>\<open>totalCellsModified\<close> is
  the number of mapped cells (a row and a mapping with a non-empty target and source)
  whose cleaned value differs from the trimmed original; the counter of each field
  (Email, Phone, First/Last Name, Status, Time Zone, Tags, Birthday) is the number of
  such cells with that target; \<^verbatim>\<open>emptyValuesCleared\<close> is the number of such cells
  whose cleaned value is the empty string, that is, of the mapped cells whose cleaned
  value is empty and whose trimmed original is not (as for "N/A"): a cell of white
  space only is not counted.
\<close>

theorem C6_processData_stats:
  assumes "plainTimeZones rows mappings"
  shows "\<exists>cleanedData stats. processData rows mappings = Inr (cleanedData, stats)
       \<and> totalCellsModified stats = countCells cellModified rows mappings
       \<and> emailsCleaned stats
           = countCells (\<lambda>r m. cellModified r m \<and> targetHeader m = Some ''Email'') rows mappings
       \<and> phonesNormalized stats
           = countCells (\<lambda>r m. cellModified r m \<and> targetHeader m = Some ''Phone'') rows mappings
       \<and> namesToProperCase stats
           = countCells (\<lambda>r m. cellModified r m
                 \<and> (targetHeader m = Some ''First Name'' \<or> targetHeader m = Some ''Last Name''))
               rows mappings
       \<and> statusValidated stats
           = countCells (\<lambda>r m. cellModified r m \<and> targetHeader m = Some ''Status'') rows mappings
       \<and> timeZoneValidated stats
           = countCells (\<lambda>r m. cellModified r m \<and> targetHeader m = Some ''Time Zone'')
               rows mappings
       \<and> tagsFormatted stats
           = countCells (\<lambda>r m. cellModified r m \<and> targetHeader m = Some ''Tags'') rows mappings
       \<and> birthdayFormatted stats
           = countCells (\<lambda>r m. cellModified r m \<and> targetHeader m = Some ''Birthday'')
               rows mappings
       \<and> emptyValuesCleared stats = countCells cellCleared rows mappings
       \<and> (\<forall>r m. cellCleared r m
             \<longleftrightarrow> applied m \<and> cleanedOf r m = Str [] \<and> originalOf r m \<noteq> [])"
proof -
  define st1 where
    "st1 = snd (cleanRows (collectTargetHeaders mappings) mappings rows
                  (initialStats (length rows)))"
  note s = cleanRows_stats [of "collectTargetHeaders mappings" mappings rows "length rows",
             folded st1_def]
  from processData_stats [OF assms] obtain cleanedData x y z
    where pd: "processData rows mappings
                 = Inr (cleanedData,
                        st1\<lparr>emptyRowsRemoved := x, emptyColumnsRemoved := y, totalRows := z\<rparr>)"
    unfolding st1_def by blast
  let ?stats = "st1\<lparr>emptyRowsRemoved := x, emptyColumnsRemoved := y, totalRows := z\<rparr>"
  have 1: "totalCellsModified ?stats = countCells cellModified rows mappings"
    by (simp add: s(1))
  have 2: "emailsCleaned ?stats
           = countCells (\<lambda>r m. cellModified r m \<and> targetHeader m = Some ''Email'') rows mappings"
    by (simp add: s(3))
  have 3: "phonesNormalized ?stats
           = countCells (\<lambda>r m. cellModified r m \<and> targetHeader m = Some ''Phone'') rows mappings"
    by (simp add: s(4))
  have 4: "namesToProperCase ?stats
           = countCells (\<lambda>r m. cellModified r m
                 \<and> (targetHeader m = Some ''First Name'' \<or> targetHeader m = Some ''Last Name''))
               rows mappings"
    by (simp add: s(5))
  have 5: "statusValidated ?stats
           = countCells (\<lambda>r m. cellModified r m \<and> targetHeader m = Some ''Status'') rows mappings"
    by (simp add: s(6))
  have 6: "timeZoneValidated ?stats
           = countCells (\<lambda>r m. cellModified r m \<and> targetHeader m = Some ''Time Zone'')
               rows mappings"
    by (simp add: s(7))
  have 7: "tagsFormatted ?stats
           = countCells (\<lambda>r m. cellModified r m \<and> targetHeader m = Some ''Tags'') rows mappings"
    by (simp add: s(8))
  have 8: "birthdayFormatted ?stats
           = countCells (\<lambda>r m. cellModified r m \<and> targetHeader m = Some ''Birthday'')
               rows mappings"
    by (simp add: s(9))
  have 9: "emptyValuesCleared ?stats = countCells cellCleared rows mappings"
    by (simp add: s(2))
  show ?thesis
    by (rule exI [of _ cleanedData], rule exI [of _ ?stats])
       (intro conjI pd 1 2 3 4 5 6 7 8 9 allI cellCleared_iff)
qed

theorem C6_processData_stats_witness:
  "(case processData [[(''Mobile'', ''N/A''), (''Mail'', ''A@b.c'')], [(''Mobile'', ''  ''), (''Mail'', ''a@b.c'')]]
            [\<lparr>sourceHeader = ''Mobile'', targetHeader = Some ''Phone'', isCustom = False\<rparr>,
             \<lparr>sourceHeader = ''Mail'', targetHeader = Some ''Email'', isCustom = False\<rparr>] of
      Inl e \<Rightarrow> None
    | Inr (cleanedData, stats) \<Rightarrow>
        Some (totalCellsModified stats, phonesNormalized stats, emailsCleaned stats,
              emptyValuesCleared stats))
   = Some (2, 1, 1, 1)"
proof -
  let ?rows = "[[(''Mobile'', ''N/A''), (''Mail'', ''A@b.c'')],
                [(''Mobile'', ''  ''), (''Mail'', ''a@b.c'')]]"
  let ?ms = "[\<lparr>sourceHeader = ''Mobile'', targetHeader = Some ''Phone'', isCustom = False\<rparr>,
              \<lparr>sourceHeader = ''Mail'', targetHeader = Some ''Email'', isCustom = False\<rparr>]"
  have p: "plainTimeZones ?rows ?ms"
    by (simp add: plainTimeZones_def)
  have c: "countCells cellModified ?rows ?ms = 2"
      "countCells (\<lambda>r m. cellModified r m \<and> targetHeader m = Some ''Phone'') ?rows ?ms = 1"
      "countCells (\<lambda>r m. cellModified r m \<and> targetHeader m = Some ''Email'') ?rows ?ms = 1"
      "countCells cellCleared ?rows ?ms = 1"
    by code_simp+
  from C6_processData_stats [OF p] obtain cleanedData stats
    where "processData ?rows ?ms = Inr (cleanedData, stats)"
      and "totalCellsModified stats = 2" and "phonesNormalized stats = 1"
      and "emailsCleaned stats = 1" and "emptyValuesCleared stats = 1"
    unfolding c by blast
  then show ?thesis
    by simp
qed

text \<open>
  C5 (as stated): every target column that has no non-empty value in any surviving row
  is dropped, incrementing \<^verbatim>\<open>emptyColumnsRemoved\<close>. When no row survives, none of the
  ten standard columns has a value in a surviving row, yet \<^verbatim>\<open>emptyColumnsRemoved\<close> is
  0: the columns are read off the first surviving row, and without one the list of
  columns is empty.
\<close>

theorem C5_emptyColumnsRemoved_counterexample:
  "(case processData [[(''Mail'', '' '')]]
            [\<lparr>sourceHeader = ''Mail'', targetHeader = Some ''Email'', isCustom = False\<rparr>] of
      Inl e \<Rightarrow> None
    | Inr (cleanedData, stats) \<Rightarrow>
        Some (cleanedData, emptyRowsRemoved stats, emptyColumnsRemoved stats, totalRows stats))
   = Some ([], 1, 0, 0)
   \<and> length TARGET_HEADERS = 10"
  by code_simp

text \<open>
  C5 (amended): when no Time Zone cell names an inherited property of the alias table,
  \<^verbatim>\<open>processData\<close> returns. It builds one row per input row, all with the same keys (the
  ten standard headers among them). It drops exactly the built rows in which no value
  has a character other than white space, and \<^verbatim>\<open>emptyRowsRemoved\<close> is the number of
  dropped rows. From the surviving rows, kept in order, it removes every entry whose
  key has no such value in any surviving row: a key is in an output row if and only if
  its column has data in some surviving row. \<^verbatim>\<open>emptyColumnsRemoved\<close> is the number of
  keys removed when a row survives, and 0 when none does. \<^verbatim>\<open>totalRows\<close> is the number
  of output rows, the input count minus the dropped rows.
\<close>

theorem C5_processData_pruning:
  fixes rows :: "row list" and mappings :: "HeaderMapping list"
  assumes plain: "plainTimeZones rows mappings"
  defines "built \<equiv> fst (cleanRows (collectTargetHeaders mappings) mappings rows
                             (initialStats (length rows)))"
  defines "kept \<equiv> filter rowHasData built"
  defines "withData \<equiv> (\<lambda>k. \<exists>r\<in>set kept. \<exists>v. (k, Str v) \<in> set r \<and> (\<exists>c\<in>set v. \<not> isSpace c))"
  shows "\<exists>cleanedData stats. processData rows mappings = Inr (cleanedData, stats)
       \<and> length built = length rows
       \<and> emptyRowsRemoved stats = length (filter (\<lambda>r. \<not> rowHasData r) built)
       \<and> map set cleanedData = map (\<lambda>r. {(k, v). (k, v) \<in> set r \<and> withData k}) kept
       \<and> (\<forall>r\<in>set cleanedData. \<forall>k. k \<in> fst ` set r \<longleftrightarrow> withData k)
       \<and> (\<exists>K. finite K \<and> set TARGET_HEADERS \<subseteq> K
              \<and> (\<forall>r\<in>set built. distinct (map fst r) \<and> fst ` set r = K)
              \<and> emptyColumnsRemoved stats
                  = (if kept = [] then 0 else card {k \<in> K. \<not> withData k}))
       \<and> totalRows stats = length cleanedData
       \<and> totalRows stats = length rows - emptyRowsRemoved stats"
proof -
  let ?hs = "collectTargetHeaders mappings"
  let ?K = "outputKeys mappings"
  let ?st1 = "snd (cleanRows ?hs mappings rows (initialStats (length rows)))"
  let ?out = "map (filter (\<lambda>(k, v). withData k)) kept"
  let ?stats = "?st1\<lparr>emptyRowsRemoved :=
                        emptyRowsRemoved ?st1 + length (filter (\<lambda>r. \<not> rowHasData r) built),
                      emptyColumnsRemoved :=
                        length (filter (\<lambda>col. \<not> withData col) (if kept = [] then [] else ?K)),
                      totalRows := length kept\<rparr>"
  have cols: "{k. \<exists>r\<in>set kept. \<exists>v. (k, Str v) \<in> set r \<and> nonBlank v} = {k. withData k}"
    unfolding withData_def nonBlank_iff ..
  have pd: "processData rows mappings = Inr (?out, ?stats)"
    unfolding processData_returns [OF plain] Let_def
    unfolding built_def [symmetric] kept_def [symmetric] cols
    by simp
  have er: "emptyRowsRemoved ?st1 = 0"
    by (rule cleanRows_stats)
  from cleanRows_keys [of mappings rows "initialStats (length rows)"]
  have len: "length built = length rows"
    and keys: "\<forall>r\<in>set built. map fst r = ?K"
    unfolding built_def by simp_all
  have K: "distinct ?K" "set TARGET_HEADERS \<subseteq> set ?K"
    using outputKeys_props [of mappings] by auto
  have kkeys: "\<forall>r\<in>set kept. map fst r = ?K"
    using keys unfolding kept_def by simp
  have 2: "emptyRowsRemoved ?stats = length (filter (\<lambda>r. \<not> rowHasData r) built)"
    by (simp add: er)
  have 3: "map set ?out = map (\<lambda>r. {(k, v). (k, v) \<in> set r \<and> withData k}) kept"
    by auto
  have 4: "\<forall>r\<in>set ?out. \<forall>k. k \<in> fst ` set r \<longleftrightarrow> withData k"
  proof (intro ballI allI)
    fix r k assume "r \<in> set ?out"
    then obtain r' where r': "r' \<in> set kept" "r = filter (\<lambda>(k, v). withData k) r'"
      by auto
    have in_K: "k \<in> set ?K" if "withData k"
    proof -
      from that obtain r'' v where "r'' \<in> set kept" "(k, v) \<in> set r''"
        unfolding withData_def by blast
      then have "k \<in> set (map fst r'')"
        by force
      with \<open>r'' \<in> set kept\<close> kkeys show ?thesis
        by simp
    qed
    have "set (map fst r') = set ?K"
      using r'(1) kkeys by simp
    then have "fst ` set r' = set ?K"
      by simp
    with in_K show "k \<in> fst ` set r \<longleftrightarrow> withData k"
      unfolding r'(2) by force
  qed
  have bk: "\<forall>r\<in>set built. distinct (map fst r) \<and> fst ` set r = set ?K"
  proof
    fix r assume "r \<in> set built"
    with keys have k: "map fst r = ?K"
      by simp
    have "fst ` set r = set (map fst r)"
      by simp
    with k K(1) show "distinct (map fst r) \<and> fst ` set r = set ?K"
      by simp
  qed
  have card: "card {k \<in> set ?K. \<not> withData k} = length (filter (\<lambda>k. \<not> withData k) ?K)"
  proof -
    have a: "{k \<in> set ?K. \<not> withData k} = set (filter (\<lambda>k. \<not> withData k) ?K)"
      by auto
    have "distinct (filter (\<lambda>k. \<not> withData k) ?K)"
      using K(1) by simp
    then show ?thesis
      unfolding a by (rule distinct_card)
  qed
  have 5: "\<exists>K. finite K \<and> set TARGET_HEADERS \<subseteq> K
              \<and> (\<forall>r\<in>set built. distinct (map fst r) \<and> fst ` set r = K)
              \<and> emptyColumnsRemoved ?stats
                  = (if kept = [] then 0 else card {k \<in> K. \<not> withData k})"
    using K(2) bk card by (intro exI [of _ "set ?K"]) simp
  have lk: "length kept = length rows - length (filter (\<lambda>r. \<not> rowHasData r) built)"
    unfolding kept_def len [symmetric]
    using sum_length_filter_compl [of rowHasData built] by simp
  have 6: "totalRows ?stats = length ?out"
    by simp
  have 7: "totalRows ?stats = length rows - emptyRowsRemoved ?stats"
    using lk by (simp add: er)
  show ?thesis
    using pd len 2 3 4 5 6 7 by blast
qed

theorem C5_processData_pruning_witness:
  "(case processData
       [[(''Mail'', ''A@B.com''), (''Mobile'', ''   '')], [(''Mail'', '' ''), (''Mobile'', ''null'')]]
       [\<lparr>sourceHeader = ''Mail'', targetHeader = Some ''Email'', isCustom = False\<rparr>,
        \<lparr>sourceHeader = ''Mobile'', targetHeader = Some ''Phone'', isCustom = False\<rparr>] of
      Inl e \<Rightarrow> None
    | Inr (cleanedData, stats) \<Rightarrow>
        Some (cleanedData, emptyRowsRemoved stats, emptyColumnsRemoved stats, totalRows stats))
   = Some ([[(''Email'', Str ''a@b.com'')]], 1, 9, 1)"
proof -
  let ?rows = "[[(''Mail'', ''A@B.com''), (''Mobile'', ''   '')],
                [(''Mail'', '' ''), (''Mobile'', ''null'')]]"
  let ?ms = "[\<lparr>sourceHeader = ''Mail'', targetHeader = Some ''Email'', isCustom = False\<rparr>,
              \<lparr>sourceHeader = ''Mobile'', targetHeader = Some ''Phone'', isCustom = False\<rparr>]"
  have p: "plainTimeZones ?rows ?ms"
    by (simp add: plainTimeZones_def)
  have e: "(case processData ?rows ?ms of
              Inl e \<Rightarrow> None
            | Inr (cleanedData, stats) \<Rightarrow>
                Some (cleanedData, emptyRowsRemoved stats, emptyColumnsRemoved stats))
           = Some ([[(''Email'', Str ''a@b.com'')]], 1, 9)"
    by code_simp
  have "\<exists>cleanedData stats. processData ?rows ?ms = Inr (cleanedData, stats)
          \<and> totalRows stats = length cleanedData"
    using C5_processData_pruning [OF p]
    by (elim exE conjE) (intro exI conjI; assumption)
  then obtain cleanedData stats
    where pd: "processData ?rows ?ms = Inr (cleanedData, stats)"
      and t: "totalRows stats = length cleanedData"
    by (elim exE conjE)
  from e have "cleanedData = [[(''Email'', Str ''a@b.com'')]]"
      "emptyRowsRemoved stats = 1" "emptyColumnsRemoved stats = 9"
    unfolding pd by simp_all
  with t show ?thesis
    unfolding pd by simp
qed

section \<open>Idempotence of the value cleaners\<close>

subsection \<open>Phone, email, status, tags and names\<close>

lemma cleanPhone_idem: "cleanPhone (cleanPhone x) = cleanPhone x"
  by (simp add: cleanPhone_def)

lemma cleanEmail_idem: "cleanEmail (cleanEmail x) = cleanEmail x"
proof -
  let ?y = "filter (\<lambda>c. \<not> isSpace c) (toLowerCase x)"
  have "filter (\<lambda>c. \<not> isSpace c) (toLowerCase ?y) = ?y"
    by (induction x) (auto simp: toLowerCase_def toLowerChar_idem isSpace_toLowerChar)
  then show ?thesis
    by (simp add: cleanEmail_def)
qed

lemma cleanStatus_valid: "v \<in> set VALID_STATUSES \<Longrightarrow> cleanStatus v = v"
proof -
  have "cleanStatus ''Lead'' = ''Lead''" "cleanStatus ''Customer'' = ''Customer''"
      "cleanStatus ''VIP'' = ''VIP''"
    by code_simp+
  then show "v \<in> set VALID_STATUSES \<Longrightarrow> cleanStatus v = v"
    by (auto simp: VALID_STATUSES_def)
qed

lemma cleanStatus_idem: "cleanStatus (cleanStatus x) = cleanStatus x"
proof (cases "x = []")
  case True
  then show ?thesis
    by (simp add: cleanStatus_def)
next
  case False
  let ?f = "find (\<lambda>validStatus. toLowerCase validStatus = toLowerCase (trim x)) VALID_STATUSES"
  show ?thesis
  proof (cases ?f)
    case None
    then have r: "cleanStatus x = trim x"
      using False by (simp add: cleanStatus_def Let_def)
    show ?thesis
      unfolding r using None
      by (simp add: cleanStatus_def Let_def trim_trim)
  next
    case (Some v)
    then have r: "cleanStatus x = v"
      using False by (simp add: cleanStatus_def Let_def)
    from Some have "v \<in> set VALID_STATUSES"
      by (auto simp: find_Some_iff)
    then show ?thesis
      unfolding r by (rule cleanStatus_valid)
  qed
qed

lemma cleanTags_idem: "cleanTags (cleanTags x) = cleanTags x"
proof (cases "x = []")
  case True
  then show ?thesis
    by (simp add: cleanTags_def)
next
  case False
  let ?ps = "filter (\<lambda>tag. length tag > 0) (map trim (splitOn isTagSeparator x))"
  have r: "cleanTags x = join ''|'' ?ps"
    using False by (simp add: cleanTags_def)
  show ?thesis
  proof (cases "?ps = []")
    case True
    then show ?thesis
      unfolding r by (simp add: cleanTags_def)
  next
    case ne: False
    have nosep: "\<forall>p\<in>set ?ps. \<forall>c\<in>set p. \<not> isTagSeparator c"
    proof (intro ballI)
      fix p c assume "p \<in> set ?ps" "c \<in> set p"
      then obtain w where w: "w \<in> set (splitOn isTagSeparator x)" "p = trim w"
        by auto
      with \<open>c \<in> set p\<close> have "c \<in> set w"
        using set_trim [of w] by auto
      with w(1) show "\<not> isTagSeparator c"
        using splitOn_pieces [of w isTagSeparator x c] by simp
    qed
    have sp: "splitOn isTagSeparator (join ''|'' ?ps) = ?ps"
      using ne nosep by (rule splitOn_join) (simp add: isTagSeparator_def)
    have tr: "map trim ?ps = ?ps"
      by (rule map_idI) (auto simp: trim_trim)
    have "filter (\<lambda>tag. length tag > 0) ?ps = ?ps"
      by simp
    then have "cleanTags (join ''|'' ?ps) = join ''|'' ?ps"
      unfolding cleanTags_def sp tr by (simp del: filter_filter)
    then show ?thesis
      unfolding r .
  qed
qed

lemma cap_lower:
  "\<forall>c\<in>set w. \<not> isUpperAlpha c \<Longrightarrow> toLowerCase (toUpperCase (take 1 w) @ drop 1 w) = w"
  by (cases w) (auto simp: toLowerCase_def toUpperCase_def toLowerChar_toUpperChar
                      toLowerChar_id map_idI)

lemma toProperCase_idem: "toProperCase (toProperCase x) = toProperCase x"
proof (cases "x = []")
  case True
  then show ?thesis
    by (simp add: toProperCase_def)
next
  case False
  let ?sp = "\<lambda>c. c = CHR '' ''"
  let ?cap = "\<lambda>word. toUpperCase (take 1 word) @ drop 1 word"
  let ?ws = "splitOn ?sp (toLowerCase x)"
  let ?y = "join '' '' (map ?cap ?ws)"
  have r: "toProperCase x = ?y"
    using False by (simp add: toProperCase_def)
  have lowerw: "\<forall>w\<in>set ?ws. \<forall>c\<in>set w. \<not> isUpperAlpha c"
  proof (intro ballI)
    fix w c assume "w \<in> set ?ws" "c \<in> set w"
    then have "c \<in> set (toLowerCase x)"
      using splitOn_pieces [of w ?sp "toLowerCase x" c] by simp
    then show "\<not> isUpperAlpha c"
      by (auto simp: toLowerCase_def not_upper_toLowerChar)
  qed
  have "toLowerCase ?y = join '' '' (map (\<lambda>w. toLowerCase (?cap w)) ?ws)"
    unfolding toLowerCase_def map_join
    by (simp add: comp_def toLowerChar_def isUpperAlpha_def)
  also have "map (\<lambda>w. toLowerCase (?cap w)) ?ws = ?ws"
  proof (rule map_idI)
    fix w assume "w \<in> set ?ws"
    then have "\<forall>c\<in>set w. \<not> isUpperAlpha c"
      using lowerw by blast
    then show "toLowerCase (?cap w) = w"
      by (rule cap_lower)
  qed
  finally have low: "toLowerCase ?y = join '' '' ?ws" .
  have nosp: "\<forall>w\<in>set ?ws. \<forall>c\<in>set w. \<not> ?sp c"
    using splitOn_pieces [of _ ?sp "toLowerCase x"] by blast
  have sp: "splitOn ?sp (join '' '' ?ws) = ?ws"
    using splitOn_nonempty nosp by (rule splitOn_join) simp
  show ?thesis
  proof (cases "?y = []")
    case True
    then show ?thesis
      unfolding r by (simp add: toProperCase_def)
  next
    case ne: False
    have "toProperCase ?y = ?y"
      using ne unfolding toProperCase_def low sp by simp
    then show ?thesis
      unfolding r .
  qed
qed

subsection \<open>Time zone\<close>

lemma find_Some_mem: "find P xs = Some x \<Longrightarrow> x \<in> set xs"
  by (induction xs) (auto split: if_splits)

lemma cleanTimeZone_valid: "v \<in> set VALID_TIME_ZONES \<Longrightarrow> cleanTimeZone v = Str v"
proof -
  assume v: "v \<in> set VALID_TIME_ZONES"
  then have ne: "v \<noteq> []" and tr: "trim v = v"
    using valid_trimmed by (auto intro: trim_id)
  have "find (\<lambda>x. toLowerCase x = toLowerCase v) VALID_TIME_ZONES = Some v"
    using distinct_lower_valid v by (rule find_distinct_image)
  then show ?thesis
    using ne by (simp add: cleanTimeZone_def Let_def tr)
qed

lemma cleanTimeZone_cases:
  assumes "x \<noteq> []" and plain: "toLowerCase (trim x) \<notin> set OBJECT_PROTOTYPE_KEYS"
  shows "(\<exists>v\<in>set VALID_TIME_ZONES. cleanTimeZone x = Str v)
       \<or> (cleanTimeZone x = Str (trim x)
          \<and> find (\<lambda>validTz. toLowerCase validTz = toLowerCase (trim x)) VALID_TIME_ZONES = None
          \<and> objectGet TIMEZONE_ALIASES (toLowerCase (trim x)) = Missing
          \<and> find (\<lambda>(alias, validTz). aliasOverlap (toLowerCase (trim x)) alias) TIMEZONE_ALIASES = None)"
proof -
  let ?l = "toLowerCase (trim x)"
  let ?fv = "find (\<lambda>validTz. toLowerCase validTz = ?l) VALID_TIME_ZONES"
  let ?fa = "find (\<lambda>(alias, validTz). aliasOverlap ?l alias) TIMEZONE_ALIASES"
  show ?thesis
  proof (cases ?fv)
    case (Some v)
    then have "v \<in> set VALID_TIME_ZONES"
      by (rule find_Some_mem)
    with Some assms(1) show ?thesis
      by (simp add: cleanTimeZone_def Let_def)
  next
    case nv: None
    show ?thesis
    proof (cases "map_of TIMEZONE_ALIASES ?l")
      case (Some v)
      then have m: "(?l, v) \<in> set TIMEZONE_ALIASES"
        by (rule map_of_SomeD)
      then have "v \<noteq> []" "v \<in> set VALID_TIME_ZONES"
        using alias_values_nonempty alias_values_valid by force+
      moreover have "objectGet TIMEZONE_ALIASES ?l = Own v"
        using Some by (rule objectGet_aliases_Own)
      ultimately show ?thesis
        using nv assms(1) by (simp add: cleanTimeZone_def Let_def)
    next
      case None
      then have na: "objectGet TIMEZONE_ALIASES ?l = Missing"
        using plain by (rule objectGet_Missing)
      show ?thesis
      proof (cases ?fa)
        case None
        with nv na assms(1) show ?thesis
          by (simp add: cleanTimeZone_def Let_def)
      next
        case (Some av)
        obtain a v where av: "av = (a, v)"
          by (cases av)
        from Some have "av \<in> set TIMEZONE_ALIASES"
          by (rule find_Some_mem)
        then have "v \<in> set VALID_TIME_ZONES"
          using alias_values_valid av by force
        with Some nv na assms(1) av show ?thesis
          by (simp add: cleanTimeZone_def Let_def)
      qed
    qed
  qed
qed

lemma cleanTimeZone_idem:
  assumes "toLowerCase (trim x) \<notin> set OBJECT_PROTOTYPE_KEYS"
  shows "cleanTimeZoneValue (cleanTimeZone x) = cleanTimeZone x"
proof (cases "x = []")
  case True
  then show ?thesis
    by (simp add: cleanTimeZone_def cleanTimeZoneValue_def)
next
  case False
  from cleanTimeZone_cases [OF False assms] show ?thesis
  proof
    assume "\<exists>v\<in>set VALID_TIME_ZONES. cleanTimeZone x = Str v"
    then obtain v where v: "v \<in> set VALID_TIME_ZONES" "cleanTimeZone x = Str v"
      by blast
    from v(1) have "cleanTimeZone v = Str v"
      by (rule cleanTimeZone_valid)
    then show ?thesis
      by (simp add: v(2) cleanTimeZoneValue_def)
  next
    assume h: "cleanTimeZone x = Str (trim x)
          \<and> find (\<lambda>validTz. toLowerCase validTz = toLowerCase (trim x)) VALID_TIME_ZONES = None
          \<and> objectGet TIMEZONE_ALIASES (toLowerCase (trim x)) = Missing
          \<and> find (\<lambda>(alias, validTz). aliasOverlap (toLowerCase (trim x)) alias) TIMEZONE_ALIASES = None"
    then have "cleanTimeZone (trim x) = Str (trim x)"
      by (simp add: cleanTimeZone_def Let_def trim_trim)
    with h show ?thesis
      by (simp add: cleanTimeZoneValue_def)
  qed
qed

text \<open>
  The input "constructor" is not a zone and not an alias, but the alias table inherits
  a property of that name: the cleaner returns the inherited function, and a second
  pass answers a value that is not a string with the empty string.
\<close>

lemma cleanTimeZone_constructor:
  "cleanTimeZone ''Constructor '' = Obj
   \<and> cleanTimeZoneValue (cleanTimeZone ''Constructor '') = Str []"
proof -
  have l: "toLowerCase (trim ''Constructor '') = ''constructor''"
    by code_simp
  have v: "find (\<lambda>validTz. toLowerCase validTz = ''constructor'') VALID_TIME_ZONES = None"
    by (rule find_lower_valid_None) (simp add: lower_valid)
  have k: "''constructor'' \<in> set OBJECT_PROTOTYPE_KEYS"
    by (simp add: OBJECT_PROTOTYPE_KEYS_def)
  have "map_of TIMEZONE_ALIASES ''constructor'' = None"
    using alias_keys_own k by blast
  then have a: "objectGet TIMEZONE_ALIASES ''constructor'' = Inherited"
    using k by (rule objectGet_Inherited)
  have "cleanTimeZone ''Constructor '' = Obj"
    by (simp add: cleanTimeZone_def Let_def l v a)
  then show ?thesis
    by (simp add: cleanTimeZoneValue_def)
qed

subsection \<open>Birthday: what the parser returns and how a rendered date is parsed again\<close>

lemma digitRun_Some:
  "digitRun lo hi s = Some (ds, r) \<Longrightarrow> list_all isDigit ds \<and> lo \<le> length ds \<and> length ds \<le> hi"
  by (auto simp: digitRun_def Let_def list_all_iff split: if_splits dest: set_takeWhileD)

lemma isoMatch_Some:
  assumes "isoMatch s = Some (y, m, d)"
  shows "list_all isDigit y \<and> length y = 4
       \<and> list_all isDigit m \<and> 1 \<le> length m \<and> length m \<le> 2
       \<and> list_all isDigit d \<and> 1 \<le> length d \<and> length d \<le> 2"
proof -
  from assms obtain r1 r3 r4 r5 r2 where
    "digitRun 4 4 s = Some (y, r1)" "digitRun 1 2 r2 = Some (m, r3)" "digitRun 1 2 r4 = Some (d, r5)"
    by (auto simp: isoMatch_def bind_eq_Some_conv atEnd_def split: if_splits)
  then show ?thesis
    by (auto dest!: digitRun_Some)
qed

lemma slashMatch_Some:
  assumes "slashMatch s = Some (a, b, y)"
  shows "list_all isDigit a \<and> 1 \<le> length a \<and> length a \<le> 2
       \<and> list_all isDigit b \<and> 1 \<le> length b \<and> length b \<le> 2
       \<and> list_all isDigit y \<and> length y = 4"
proof -
  from assms obtain r1 r3 r4 r5 r2 where
    "digitRun 1 2 s = Some (a, r1)" "digitRun 1 2 r2 = Some (b, r3)" "digitRun 4 4 r4 = Some (y, r5)"
    by (auto simp: slashMatch_def bind_eq_Some_conv atEnd_def split: if_splits)
  then show ?thesis
    by (auto dest!: digitRun_Some)
qed

lemma textMatch1_Some:
  assumes "textMatch1 s = Some (t, d, y)"
  shows "list_all isDigit d \<and> 1 \<le> length d \<and> length d \<le> 2 \<and> list_all isDigit y \<and> length y = 4"
proof -
  from assms obtain r2 r3 r4 r5 where
    "digitRun 1 2 r2 = Some (d, r3)" "digitRun 4 4 r4 = Some (y, r5)"
    by (auto simp: textMatch1_def bind_eq_Some_conv atEnd_def split: if_splits)
  then show ?thesis
    by (auto dest!: digitRun_Some)
qed

lemma textMatch2_Some:
  assumes "textMatch2 s = Some (d, t, y)"
  shows "list_all isDigit d \<and> 1 \<le> length d \<and> length d \<le> 2 \<and> list_all isDigit y \<and> length y = 4"
proof -
  from assms obtain r1 r4 r5 where
    "digitRun 1 2 s = Some (d, r1)" "digitRun 4 4 r4 = Some (y, r5)"
    by (auto simp: textMatch2_def bind_eq_Some_conv atEnd_def split: if_splits)
  then show ?thesis
    by (auto dest!: digitRun_Some)
qed

lemma padStart2_digits:
  "list_all isDigit s \<Longrightarrow> 1 \<le> length s \<Longrightarrow> length s \<le> 2 \<Longrightarrow>
   length (padStart2 s) = 2 \<and> list_all isDigit (padStart2 s)"
proof -
  have "isDigit (CHR ''0'')"
    by (simp add: isDigit_def)
  then show "list_all isDigit s \<Longrightarrow> 1 \<le> length s \<Longrightarrow> length s \<le> 2 \<Longrightarrow>
     length (padStart2 s) = 2 \<and> list_all isDigit (padStart2 s)"
    by (auto simp: padStart2_def list_all_iff)
qed

lemma month_names_digits:
  "map_of MONTH_NAMES k = Some v \<Longrightarrow> length v = 2 \<and> list_all isDigit v"
proof -
  assume "map_of MONTH_NAMES k = Some v"
  then have "v \<in> snd ` set MONTH_NAMES"
    by (force dest: map_of_SomeD)
  then show ?thesis
    unfolding MONTH_NAMES_def by (auto simp: isDigit_def)
qed

lemma parseSlash_wf:
  assumes "slashMatch s = Some m"
  shows "wellFormed (parseSlash m)"
proof -
  obtain a b y where m: "m = (a, b, y)"
    by (cases m)
  from slashMatch_Some [OF assms [unfolded m]] show ?thesis
    unfolding m by (simp add: parseSlash_def Let_def wellFormed_def padStart2_digits)
qed

lemma letterRun_Some: "letterRun s = Some (t, r) \<Longrightarrow> list_all isAlpha t"
  by (auto simp: letterRun_def Let_def list_all_iff split: if_splits dest: set_takeWhileD)

lemma textMatch1_letters:
  assumes "textMatch1 s = Some (t, d, y)"
  shows "list_all isAlpha t"
proof -
  from assms obtain r1 where "letterRun s = Some (t, r1)"
    by (auto simp: textMatch1_def bind_eq_Some_conv atEnd_def split: if_splits)
  then show ?thesis
    by (rule letterRun_Some)
qed

lemma textMatch2_letters:
  assumes "textMatch2 s = Some (d, t, y)"
  shows "list_all isAlpha t"
proof -
  from assms obtain r2 r3 where "letterRun r2 = Some (t, r3)"
    by (auto simp: textMatch2_def bind_eq_Some_conv atEnd_def split: if_splits)
  then show ?thesis
    by (rule letterRun_Some)
qed

text \<open>
  A month word is made of letters, and in lower case the only property of
  \<^verbatim>\<open>Object.prototype\<close> that it can name is \<^verbatim>\<open>constructor\<close>.
\<close>

lemma isLowerAlpha_toLowerChar: "isAlpha c \<Longrightarrow> isLowerAlpha (toLowerChar c)"
  by (auto simp: isAlpha_def isLowerAlpha_def isUpperAlpha_def toLowerChar_def)

lemma letters_key:
  assumes "list_all isAlpha t" "toLowerCase t \<in> set OBJECT_PROTOTYPE_KEYS"
  shows "toLowerCase t = ''constructor''"
proof -
  have l: "list_all isLowerAlpha (toLowerCase t)"
    using assms(1) by (simp add: toLowerCase_def list_all_iff isLowerAlpha_toLowerChar)
  have "\<forall>k\<in>set OBJECT_PROTOTYPE_KEYS. list_all isLowerAlpha k \<longrightarrow> k = ''constructor''"
    unfolding OBJECT_PROTOTYPE_KEYS_def by (simp add: isLowerAlpha_def)
  with assms(2) l show ?thesis
    by blast
qed

lemma monthOf_cases:
  assumes "monthOf t = Some m" "list_all isAlpha t"
  shows "(length m = 2 \<and> list_all isDigit m) \<or> m = inheritedText ''constructor''"
proof (cases "map_of MONTH_NAMES (toLowerCase t)")
  case (Some v)
  then have "objectGet MONTH_NAMES (toLowerCase t) = Own v"
    by (simp add: objectGet_def)
  with assms(1) have "m = v"
    by (simp add: monthOf_def split: if_splits)
  with month_names_digits [OF Some] show ?thesis
    by simp
next
  case None
  show ?thesis
  proof (cases "toLowerCase t \<in> set OBJECT_PROTOTYPE_KEYS")
    case True
    with None have "objectGet MONTH_NAMES (toLowerCase t) = Inherited"
      by (rule objectGet_Inherited)
    with assms(1) have "m = inheritedText (toLowerCase t)"
      by (simp add: monthOf_def)
    with letters_key [OF assms(2) True] show ?thesis
      by simp
  next
    case False
    with None have "objectGet MONTH_NAMES (toLowerCase t) = Missing"
      by (rule objectGet_Missing)
    with assms(1) show ?thesis
      by (simp add: monthOf_def)
  qed
qed

lemma text_components:
  assumes tm: "textMatch1 s = Some (t, d, y) \<or> textMatch2 s = Some (d, t, y)"
      and m: "monthOf t = Some m"
  shows "wellFormed \<lparr>month = m, day = padStart2 d, year = y\<rparr>
       \<or> inheritedMonth \<lparr>month = m, day = padStart2 d, year = y\<rparr>"
proof -
  from tm have dy: "list_all isDigit d \<and> 1 \<le> length d \<and> length d \<le> 2
                    \<and> list_all isDigit y \<and> length y = 4"
    by (auto dest: textMatch1_Some textMatch2_Some)
  from tm have "list_all isAlpha t"
    by (auto dest: textMatch1_letters textMatch2_letters)
  with m have "(length m = 2 \<and> list_all isDigit m) \<or> m = inheritedText ''constructor''"
    by (rule monthOf_cases)
  with dy show ?thesis
    by (auto simp: wellFormed_def inheritedMonth_def padStart2_digits)
qed

lemma parseText_cases:
  assumes "parseText s = Some c"
  shows "wellFormed c \<or> inheritedMonth c"
proof -
  from assms consider
      (first) t d y m where "textMatch1 s = Some (t, d, y)" "monthOf t = Some m"
        "c = \<lparr>month = m, day = padStart2 d, year = y\<rparr>"
    | (second) t d y m where "textMatch2 s = Some (d, t, y)" "monthOf t = Some m"
        "c = \<lparr>month = m, day = padStart2 d, year = y\<rparr>"
    by (auto simp: parseText_def Let_def split: option.splits)
  then show ?thesis
  proof cases
    case first
    from text_components [OF disjI1 [OF first(1)] first(2)] show ?thesis
      unfolding first(3) .
  next
    case second
    from text_components [OF disjI2 [OF second(1)] second(2)] show ?thesis
      unfolding second(3) .
  qed
qed

lemma parseBirthday_cases:
  assumes "parseBirthday x = Some c"
  shows "wellFormed c \<or> inheritedMonth c"
proof (cases "isoMatch (trim x)")
  case (Some ymd)
  obtain y m d where ymd: "ymd = (y, m, d)"
    by (cases ymd)
  from assms Some have c: "c = \<lparr>month = padStart2 m, day = padStart2 d, year = y\<rparr>"
    by (auto simp: parseBirthday_def Let_def ymd split: if_splits)
  from isoMatch_Some [OF Some [unfolded ymd]] show ?thesis
    unfolding c by (simp add: wellFormed_def padStart2_digits)
next
  case None
  show ?thesis
  proof (cases "slashMatch (trim x)")
    case (Some m)
    with None assms have "c = parseSlash m"
      by (auto simp: parseBirthday_def Let_def split: if_splits)
    with parseSlash_wf [OF Some] show ?thesis
      by simp
  next
    case n2: None
    with None assms have "parseText (trim x) = Some c"
      by (auto simp: parseBirthday_def Let_def split: if_splits)
    then show ?thesis
      by (rule parseText_cases)
  qed
qed

lemma isoMatch_shape:
  assumes "list_all isDigit y" "length y = 4"
      and "list_all isDigit a" "1 \<le> length a" "length a \<le> 2"
      and "list_all isDigit b" "1 \<le> length b" "length b \<le> 2"
      and "isDateSeparator s1" "isDateSeparator s2"
  shows "isoMatch (y @ s1 # a @ s2 # b) = Some (y, a, b)"
proof -
  have n1: "\<not> isDigit s1" and n2: "\<not> isDigit s2"
    using assms by (auto dest: isDateSeparator_not_isDigit)
  have 1: "digitRun 4 4 (y @ s1 # a @ s2 # b) = Some (y, s1 # a @ s2 # b)"
    using assms n1 by (simp add: digitRun_append)
  have 2: "digitRun (Suc 0) 2 (a @ s2 # b) = Some (a, s2 # b)"
    using assms n2 by (simp add: digitRun_append)
  have 3: "digitRun (Suc 0) 2 b = Some (b, [])"
    using assms digitRun_append [of b "[]" 1 2] by simp
  show ?thesis
    using assms by (simp add: isoMatch_def 1 2 3 dateSeparator_def atEnd_def)
qed

lemma digits_trim:
  assumes "list_all isDigit a" "a \<noteq> []" "list_all isDigit b" "b \<noteq> []"
  shows "trim (a @ r @ b) = a @ r @ b"
proof (rule trim_id)
  show "a @ r @ b \<noteq> []"
    using assms by simp
  show "\<not> isSpace (hd (a @ r @ b))"
    using assms(1,2) by (cases a) (auto dest: isDigit_not_isSpace)
  show "\<not> isSpace (last (a @ r @ b))"
    using assms(3,4) by (cases b rule: rev_cases) (auto dest: isDigit_not_isSpace)
qed

lemma parseBirthday_slash_form:
  assumes "list_all isDigit a" "length a = 2" "list_all isDigit b" "length b = 2"
      and "list_all isDigit y" "length y = 4"
  shows "parseBirthday (a @ ''/'' @ b @ ''/'' @ y) = Some (parseSlash (a, b, y))"
proof -
  let ?s = "a @ CHR ''/'' # b @ CHR ''/'' # y"
  have sep: "isDateSeparator (CHR ''/'')"
    by (simp add: isDateSeparator_def)
  have "a \<noteq> []" "y \<noteq> []"
    using assms by auto
  then have tr: "trim ?s = ?s"
    using digits_trim [of a y "CHR ''/'' # b @ [CHR ''/'']"] assms by simp
  have m: "slashMatch ?s = Some (a, b, y)" "isoMatch ?s = None"
    using slashMatch_shape [of a b y "CHR ''/''" "CHR ''/''"] assms sep by simp_all
  have ne: "?s \<noteq> []"
    by simp
  show ?thesis
    unfolding parseBirthday_def using ne
    by (simp add: tr m Let_def del: append_is_Nil_conv)
qed

lemma parseBirthday_iso_form:
  assumes "list_all isDigit a" "length a = 2" "list_all isDigit b" "length b = 2"
      and "list_all isDigit y" "length y = 4"
  shows "parseBirthday (y @ ''/'' @ a @ ''/'' @ b) = Some \<lparr>month = a, day = b, year = y\<rparr>"
proof -
  let ?s = "y @ CHR ''/'' # a @ CHR ''/'' # b"
  have sep: "isDateSeparator (CHR ''/'')"
    by (simp add: isDateSeparator_def)
  have "y \<noteq> []" "b \<noteq> []"
    using assms by auto
  then have tr: "trim ?s = ?s"
    using digits_trim [of y b "CHR ''/'' # a @ [CHR ''/'']"] assms by simp
  have m: "isoMatch ?s = Some (y, a, b)"
    using isoMatch_shape [of y a b "CHR ''/''" "CHR ''/''"] assms sep by simp
  have ne: "?s \<noteq> []"
    by simp
  show ?thesis
    unfolding parseBirthday_def using ne assms
    by (simp add: tr m Let_def padStart2_two del: append_is_Nil_conv)
qed

lemma parseSlash_two:
  "length a = 2 \<Longrightarrow> length b = 2 \<Longrightarrow>
   parseSlash (a, b, y) =
     (if 12 < parseInt a \<and> parseInt b \<le> 12 then \<lparr>month = b, day = a, year = y\<rparr>
      else \<lparr>month = a, day = b, year = y\<rparr>)"
  by (simp add: parseSlash_def Let_def padStart2_two)

lemma parseBirthday_trim: "trim x \<noteq> [] \<Longrightarrow> parseBirthday (trim x) = parseBirthday x"
proof -
  assume ne: "trim x \<noteq> []"
  then have "x \<noteq> []"
    by (auto simp: trim_def)
  with ne show ?thesis
    by (simp add: parseBirthday_def trim_trim)
qed

lemma parseBirthday_Nil: "parseBirthday [] = None"
  by (simp add: parseBirthday_def)

text \<open>What a second parse of a rendered birthday gives, for each target format.\<close>

lemma reparse:
  assumes "wellFormed c"
  shows "parseBirthday (formatBirthdayToTarget c YYYY_MM_DD) = Some c"
    and "parseBirthday (formatBirthdayToTarget c MM_DD_YYYY)
           = Some (if 12 < parseInt (month c) \<and> parseInt (day c) \<le> 12
                   then \<lparr>month = day c, day = month c, year = year c\<rparr> else c)"
    and "parseBirthday (formatBirthdayToTarget c DD_MM_YYYY)
           = Some (if 12 < parseInt (day c) \<and> parseInt (month c) \<le> 12
                   then c else \<lparr>month = day c, day = month c, year = year c\<rparr>)"
proof -
  from assms have w: "list_all isDigit (month c)" "length (month c) = 2"
      "list_all isDigit (day c)" "length (day c) = 2"
      "list_all isDigit (year c)" "length (year c) = 4"
    by (auto simp: wellFormed_def)
  show "parseBirthday (formatBirthdayToTarget c YYYY_MM_DD) = Some c"
    using parseBirthday_iso_form [OF w] by (simp add: formatBirthdayToTarget_def)
  show "parseBirthday (formatBirthdayToTarget c MM_DD_YYYY)
           = Some (if 12 < parseInt (month c) \<and> parseInt (day c) \<le> 12
                   then \<lparr>month = day c, day = month c, year = year c\<rparr> else c)"
    using parseBirthday_slash_form [OF w] w
    by (simp add: formatBirthdayToTarget_def parseSlash_two)
  show "parseBirthday (formatBirthdayToTarget c DD_MM_YYYY)
           = Some (if 12 < parseInt (day c) \<and> parseInt (month c) \<le> 12
                   then c else \<lparr>month = day c, day = month c, year = year c\<rparr>)"
    using parseBirthday_slash_form [OF w(3,4,1,2,5,6)] w
    by (simp add: formatBirthdayToTarget_def parseSlash_two)
qed

lemma format_swap_eq:
  assumes "wellFormed c"
  shows "formatBirthdayToTarget \<lparr>month = day c, day = month c, year = year c\<rparr> f
           = formatBirthdayToTarget c f \<longleftrightarrow> month c = day c"
  using assms by (cases f) (auto simp: formatBirthdayToTarget_def wellFormed_def)

lemma reparse_us_stable:
  assumes "wellFormed c" and n: "\<not> (12 < parseInt (month c) \<and> parseInt (day c) \<le> 12)"
  shows "parseBirthday (formatBirthdayToTarget c MM_DD_YYYY) = Some c"
  using reparse(2) [OF assms(1)] by (simp only: if_not_P [OF n])

lemma reparse_us_swap:
  assumes "wellFormed c" and y: "12 < parseInt (month c) \<and> parseInt (day c) \<le> 12"
  shows "parseBirthday (formatBirthdayToTarget c MM_DD_YYYY)
           = Some \<lparr>month = day c, day = month c, year = year c\<rparr>"
  using reparse(2) [OF assms(1)] by (simp only: if_P [OF y])

lemma reparse_eu_stable:
  assumes "wellFormed c" and y: "12 < parseInt (day c) \<and> parseInt (month c) \<le> 12"
  shows "parseBirthday (formatBirthdayToTarget c DD_MM_YYYY) = Some c"
  using reparse(3) [OF assms(1)] by (simp only: if_P [OF y])

lemma reparse_eu_swap:
  assumes "wellFormed c" and n: "\<not> (12 < parseInt (day c) \<and> parseInt (month c) \<le> 12)"
  shows "parseBirthday (formatBirthdayToTarget c DD_MM_YYYY)
           = Some \<lparr>month = day c, day = month c, year = year c\<rparr>"
  using reparse(3) [OF assms(1)] by (simp only: if_not_P [OF n])

text \<open>
  A rendered birthday whose month is the text of the inherited function does not parse
  again, in any of the three formats.
\<close>

lemma digitRun_none:
  "s = [] \<or> \<not> isDigit (hd s) \<Longrightarrow> 0 < lo \<Longrightarrow> digitRun lo hi s = None"
  using digitRun_append [of "[]" s lo hi] by simp

lemma letterRun_none: "s = [] \<or> \<not> isAlpha (hd s) \<Longrightarrow> letterRun s = None"
  by (cases s) (auto simp: letterRun_def)

lemma spaceRun_none: "s = [] \<or> \<not> isSpace (hd s) \<Longrightarrow> spaceRun s = None"
  by (cases s) (auto simp: spaceRun_def)

lemma isDigit_not_isAlpha: "isDigit c \<Longrightarrow> \<not> isAlpha c"
  by (auto simp: isDigit_def isAlpha_def isUpperAlpha_def isLowerAlpha_def)

lemma digits_hd:
  "list_all isDigit a \<Longrightarrow> a \<noteq> [] \<Longrightarrow> isDigit (hd (a @ r))"
  by (cases a) auto

lemma inherited_first:
  fixes r :: string
  defines "s \<equiv> ''function Object() { [native code] }'' @ r"
  shows "isoMatch s = None" and "slashMatch s = None"
    and "textMatch1 s = None" and "textMatch2 s = None"
proof -
  have d: "digitRun lo hi s = None" if "0 < lo" for lo hi
    using that unfolding s_def by (intro digitRun_none) (simp add: isDigit_def)
  show "isoMatch s = None" "slashMatch s = None" "textMatch2 s = None"
    by (simp_all add: isoMatch_def slashMatch_def textMatch2_def d)
  define t1 where "t1 = '' Object() { [native code] }'' @ r"
  define t2 where "t2 = ''Object() { [native code] }'' @ r"
  have l: "letterRun s = Some (''function'', t1)"
    unfolding s_def t1_def
    by (simp add: letterRun_def isAlpha_def isUpperAlpha_def isLowerAlpha_def)
  have sp: "spaceRun t1 = Some t2"
    unfolding t1_def t2_def by (simp add: spaceRun_def isSpace_def)
  have dg: "digitRun (Suc 0) 2 t2 = None"
    unfolding t2_def by (intro digitRun_none) (simp_all add: isDigit_def)
  show "textMatch1 s = None"
    by (simp add: textMatch1_def l sp dg)
qed

lemma inherited_second:
  fixes r d :: string
  assumes d: "list_all isDigit d" "length d = 2"
  defines "s \<equiv> d @ ''/'' @ ''function Object() { [native code] }'' @ r"
  shows "isoMatch s = None" and "slashMatch s = None"
    and "textMatch1 s = None" and "textMatch2 s = None"
proof -
  let ?t = "''function Object() { [native code] }'' @ r"
  have s: "s = d @ CHR ''/'' # ?t"
    by (simp add: s_def)
  have sep: "\<not> isDigit (CHR ''/'')" "isDateSeparator (CHR ''/'')" "\<not> isSpace (CHR ''/'')"
    by (simp_all add: isDigit_def isDateSeparator_def isSpace_def)
  have r: "digitRun lo hi s = (if lo \<le> 2 \<and> 2 \<le> hi then Some (d, CHR ''/'' # ?t) else None)"
    for lo hi
    unfolding s using digitRun_append [OF d(1), of "CHR ''/'' # ?t" lo hi] sep(1) d(2)
    by simp
  have t: "digitRun (Suc 0) 2 ?t = None"
    by (intro digitRun_none) (simp_all add: isDigit_def)
  show "isoMatch s = None"
    by (simp add: isoMatch_def r)
  show "slashMatch s = None"
    using t by (simp add: slashMatch_def r dateSeparator_def sep)
  have "d \<noteq> []"
    using d(2) by auto
  then have "isDigit (hd s)"
    unfolding s using d(1) by (intro digits_hd)
  then have "letterRun s = None"
    by (intro letterRun_none) (simp add: isDigit_not_isAlpha)
  then show "textMatch1 s = None"
    by (simp add: textMatch1_def)
  have "spaceRun (CHR ''/'' # ?t) = None"
    by (intro spaceRun_none) (simp add: sep)
  then show "textMatch2 s = None"
    by (simp add: textMatch2_def r)
qed

lemma inherited_third:
  fixes r y :: string
  assumes y: "list_all isDigit y" "length y = 4"
  defines "s \<equiv> y @ ''/'' @ ''function Object() { [native code] }'' @ r"
  shows "isoMatch s = None" and "slashMatch s = None"
    and "textMatch1 s = None" and "textMatch2 s = None"
proof -
  let ?t = "''function Object() { [native code] }'' @ r"
  have s: "s = y @ CHR ''/'' # ?t"
    by (simp add: s_def)
  have sep: "\<not> isDigit (CHR ''/'')" "isDateSeparator (CHR ''/'')"
    by (simp_all add: isDigit_def isDateSeparator_def)
  have r: "digitRun lo hi s = (if lo \<le> 4 \<and> 4 \<le> hi then Some (y, CHR ''/'' # ?t) else None)"
    for lo hi
    unfolding s using digitRun_append [OF y(1), of "CHR ''/'' # ?t" lo hi] sep(1) y(2)
    by simp
  have t: "digitRun (Suc 0) 2 ?t = None"
    by (intro digitRun_none) (simp_all add: isDigit_def)
  show "isoMatch s = None"
    using t by (simp add: isoMatch_def r dateSeparator_def sep)
  show "slashMatch s = None"
    by (simp add: slashMatch_def r)
  have "y \<noteq> []"
    using y(2) by auto
  then have "isDigit (hd s)"
    unfolding s using y(1) by (intro digits_hd)
  then have "letterRun s = None"
    by (intro letterRun_none) (simp add: isDigit_not_isAlpha)
  then show "textMatch1 s = None"
    by (simp add: textMatch1_def)
  show "textMatch2 s = None"
    by (simp add: textMatch2_def r)
qed

lemma unmatched:
  assumes "isoMatch (trim s) = None" "slashMatch (trim s) = None"
      and "textMatch1 (trim s) = None" "textMatch2 (trim s) = None"
  shows "parseBirthday s = None"
  using assms by (simp add: parseBirthday_def parseText_def Let_def)

lemma format_inherited:
  assumes "inheritedMonth c"
  shows "trim (formatBirthdayToTarget c f) = formatBirthdayToTarget c f"
    and "parseBirthday (formatBirthdayToTarget c f) = None"
proof -
  let ?T = "''function Object() { [native code] }''"
  from assms have m: "month c = ?T"
    and d: "list_all isDigit (day c)" "length (day c) = 2"
    and y: "list_all isDigit (year c)" "length (year c) = 4"
    by (simp_all add: inheritedMonth_def inheritedText_def)
  have dne: "day c \<noteq> []" and yne: "year c \<noteq> []"
    using d(2) y(2) by auto
  have dl: "\<not> isSpace (last (day c))" "\<not> isSpace (hd (day c))"
    using d(1) dne by (auto simp: list_all_iff dest!: isDigit_not_isSpace)
  have yl: "\<not> isSpace (last (year c))" "\<not> isSpace (hd (year c))"
    using y(1) yne by (auto simp: list_all_iff dest!: isDigit_not_isSpace)
  have f: "\<not> isSpace (CHR ''f'')"
    by (simp add: isSpace_def)
  show tr: "trim (formatBirthdayToTarget c f) = formatBirthdayToTarget c f"
  proof (cases f)
    case MM_DD_YYYY
    have "trim (?T @ ''/'' @ day c @ ''/'' @ year c) = ?T @ ''/'' @ day c @ ''/'' @ year c"
      using yne yl(1) f by (intro trim_id) simp_all
    then show ?thesis
      by (simp add: formatBirthdayToTarget_def MM_DD_YYYY m)
  next
    case DD_MM_YYYY
    have "trim (day c @ ''/'' @ ?T @ ''/'' @ year c) = day c @ ''/'' @ ?T @ ''/'' @ year c"
      using yne yl(1) dne dl(2) by (intro trim_id) simp_all
    then show ?thesis
      by (simp add: formatBirthdayToTarget_def DD_MM_YYYY m)
  next
    case YYYY_MM_DD
    have "trim (year c @ ''/'' @ ?T @ ''/'' @ day c) = year c @ ''/'' @ ?T @ ''/'' @ day c"
      using yne yl(2) dne dl(1) by (intro trim_id) simp_all
    then show ?thesis
      by (simp add: formatBirthdayToTarget_def YYYY_MM_DD m)
  qed
  show "parseBirthday (formatBirthdayToTarget c f) = None"
  proof (rule unmatched; unfold tr)
    show "isoMatch (formatBirthdayToTarget c f) = None"
      using inherited_first(1) [of "''/'' @ day c @ ''/'' @ year c"]
        inherited_second(1) [OF d, of "''/'' @ year c"]
        inherited_third(1) [OF y, of "''/'' @ day c"]
      by (cases f) (simp_all add: formatBirthdayToTarget_def m)
    show "slashMatch (formatBirthdayToTarget c f) = None"
      using inherited_first(2) [of "''/'' @ day c @ ''/'' @ year c"]
        inherited_second(2) [OF d, of "''/'' @ year c"]
        inherited_third(2) [OF y, of "''/'' @ day c"]
      by (cases f) (simp_all add: formatBirthdayToTarget_def m)
    show "textMatch1 (formatBirthdayToTarget c f) = None"
      using inherited_first(3) [of "''/'' @ day c @ ''/'' @ year c"]
        inherited_second(3) [OF d, of "''/'' @ year c"]
        inherited_third(3) [OF y, of "''/'' @ day c"]
      by (cases f) (simp_all add: formatBirthdayToTarget_def m)
    show "textMatch2 (formatBirthdayToTarget c f) = None"
      using inherited_first(4) [of "''/'' @ day c @ ''/'' @ year c"]
        inherited_second(4) [OF d, of "''/'' @ year c"]
        inherited_third(4) [OF y, of "''/'' @ day c"]
      by (cases f) (simp_all add: formatBirthdayToTarget_def m)
  qed
qed

lemma not_wellFormed_inherited: "inheritedMonth c \<Longrightarrow> \<not> wellFormed c"
  by (simp add: inheritedMonth_def wellFormed_def inheritedText_def)

lemma cleanBirthday_unparsed:
  assumes "parseBirthday x = None"
  shows "cleanBirthday (cleanBirthday x) = cleanBirthday x"
proof -
  have r: "cleanBirthday x = trim x"
    using assms by (simp add: cleanBirthday_def)
  have "parseBirthday (trim x) = None"
  proof (cases "trim x = []")
    case True
    then show ?thesis
      by (simp add: parseBirthday_Nil)
  next
    case False
    then show ?thesis
      using assms by (simp add: parseBirthday_trim)
  qed
  then show ?thesis
    unfolding r by (simp add: cleanBirthday_def trim_trim)
qed

lemma swap_differs:
  "12 < parseInt m \<Longrightarrow> parseInt d \<le> 12 \<Longrightarrow> m \<noteq> d"
  by auto

lemma cleanBirthday_parsed:
  assumes "parseBirthday x = Some c"
  shows "cleanBirthday (cleanBirthday x) = cleanBirthday x
           \<longleftrightarrow> \<not> (wellFormed c \<and> 12 < parseInt (month c) \<and> parseInt (day c) \<le> 12)"
proof (cases "wellFormed c")
  case w: True
  have r: "cleanBirthday x = formatBirthdayToTarget c MM_DD_YYYY"
    using assms by (simp add: cleanBirthday_def)
  show ?thesis
  proof (cases "12 < parseInt (month c) \<and> parseInt (day c) \<le> 12")
    case True
    then have "month c \<noteq> day c"
      by (auto dest: swap_differs)
    then have "formatBirthdayToTarget \<lparr>month = day c, day = month c, year = year c\<rparr> MM_DD_YYYY
                 \<noteq> formatBirthdayToTarget c MM_DD_YYYY"
      using format_swap_eq [OF w, of MM_DD_YYYY] by simp
    then have "cleanBirthday (cleanBirthday x) \<noteq> cleanBirthday x"
      unfolding r by (simp add: cleanBirthday_def reparse_us_swap [OF w True])
    with True w show ?thesis
      by blast
  next
    case False
    have "cleanBirthday (cleanBirthday x) = cleanBirthday x"
      unfolding r by (simp add: cleanBirthday_def reparse_us_stable [OF w False])
    with False show ?thesis
      by blast
  qed
next
  case False
  with parseBirthday_cases [OF assms] have i: "inheritedMonth c"
    by simp
  have r: "cleanBirthday x = formatBirthdayToTarget c MM_DD_YYYY"
    using assms by (simp add: cleanBirthday_def)
  have "cleanBirthday (cleanBirthday x) = cleanBirthday x"
    unfolding r by (simp add: cleanBirthday_def format_inherited [OF i])
  with False show ?thesis
    by simp
qed

lemma format_nonempty: "formatBirthdayToTarget c f \<noteq> []"
  by (cases f) (simp_all add: formatBirthdayToTarget_def)

lemma reformatRow_unparsed:
  assumes "case map_of r ''Birthday'' of None \<Rightarrow> True | Some b \<Rightarrow> parseBirthday b = None"
  shows "reformatRow f r = r"
  using assms by (auto simp: reformatRow_def split: option.splits)

lemma reformatRow_parsed:
  assumes b: "map_of r ''Birthday'' = Some b" and c: "parseBirthday b = Some c"
      and c': "parseBirthday (formatBirthdayToTarget c f) = Some c'"
      and eq: "formatBirthdayToTarget c' f = formatBirthdayToTarget c f"
  shows "reformatRow f (reformatRow f r) = reformatRow f r"
proof -
  have ne: "b \<noteq> []"
    using c by (auto simp: parseBirthday_Nil)
  have 1: "reformatRow f r = AList.update ''Birthday'' (formatBirthdayToTarget c f) r"
    using b c ne by (simp add: reformatRow_def)
  have 2: "map_of (AList.update ''Birthday'' (formatBirthdayToTarget c f) r) ''Birthday''
             = Some (formatBirthdayToTarget c f)"
    by (simp add: update_conv')
  show ?thesis
    unfolding 1
    by (simp add: reformatRow_def [of f "AList.update _ _ _"] 2 format_nonempty c' eq
             del: update_conv')
qed

lemma reformatRow_parsed_once:
  assumes b: "map_of r ''Birthday'' = Some b" and c: "parseBirthday b = Some c"
      and n: "parseBirthday (formatBirthdayToTarget c f) = None"
  shows "reformatRow f (reformatRow f r) = reformatRow f r"
proof -
  have ne: "b \<noteq> []"
    using c by (auto simp: parseBirthday_Nil)
  have 1: "reformatRow f r = AList.update ''Birthday'' (formatBirthdayToTarget c f) r"
    using b c ne by (simp add: reformatRow_def)
  have 2: "map_of (AList.update ''Birthday'' (formatBirthdayToTarget c f) r) ''Birthday''
             = Some (formatBirthdayToTarget c f)"
    by (simp add: update_conv')
  show ?thesis
    unfolding 1
    by (simp add: reformatRow_def [of f "AList.update _ _ _"] 2 format_nonempty n
             del: update_conv')
qed

lemma reformatRow_idem:
  assumes "\<And>b c. map_of r ''Birthday'' = Some b \<Longrightarrow> parseBirthday b = Some c \<Longrightarrow>
             f = YYYY_MM_DD
             \<or> (f = MM_DD_YYYY
                \<and> \<not> (wellFormed c \<and> 12 < parseInt (month c) \<and> parseInt (day c) \<le> 12))
             \<or> (f = DD_MM_YYYY
                \<and> ((wellFormed c \<and> 12 < parseInt (day c) \<and> parseInt (month c) \<le> 12)
                   \<or> month c = day c))"
  shows "reformatRow f (reformatRow f r) = reformatRow f r"
proof (cases "map_of r ''Birthday''")
  case None
  then show ?thesis
    by (simp add: reformatRow_unparsed)
next
  case (Some b)
  show ?thesis
  proof (cases "parseBirthday b")
    case None
    with Some show ?thesis
      by (simp add: reformatRow_unparsed)
  next
    case c: (Some c)
    show ?thesis
    proof (cases "wellFormed c")
      case False
      with parseBirthday_cases [OF c] have "inheritedMonth c"
        by simp
      then have "parseBirthday (formatBirthdayToTarget c f) = None"
        by (rule format_inherited)
      with Some c show ?thesis
        by (rule reformatRow_parsed_once)
    next
      case w: True
      from assms [OF Some c] w consider
          (iso) "f = YYYY_MM_DD"
        | (us) "f = MM_DD_YYYY" "\<not> (12 < parseInt (month c) \<and> parseInt (day c) \<le> 12)"
        | (eu) "f = DD_MM_YYYY" "12 < parseInt (day c) \<and> parseInt (month c) \<le> 12"
        | (eq) "f = DD_MM_YYYY" "\<not> (12 < parseInt (day c) \<and> parseInt (month c) \<le> 12)"
               "month c = day c"
        by blast
      then show ?thesis
      proof cases
        case iso
        show ?thesis
          using Some c reparse(1) [OF w] unfolding iso by (rule reformatRow_parsed) simp
      next
        case us
        have "parseBirthday (formatBirthdayToTarget c MM_DD_YYYY) = Some c"
          using w us(2) by (rule reparse_us_stable)
        with Some c show ?thesis
          unfolding us(1) by (rule reformatRow_parsed) simp
      next
        case eu
        have "parseBirthday (formatBirthdayToTarget c DD_MM_YYYY) = Some c"
          using w eu(2) by (rule reparse_eu_stable)
        with Some c show ?thesis
          unfolding eu(1) by (rule reformatRow_parsed) simp
      next
        case eq
        have "parseBirthday (formatBirthdayToTarget c DD_MM_YYYY)
                = Some \<lparr>month = day c, day = month c, year = year c\<rparr>"
          using w eq(2) by (rule reparse_eu_swap)
        with Some c show ?thesis
          unfolding eq(1)
          by (rule reformatRow_parsed) (rule iffD2 [OF format_swap_eq [OF w] eq(3)])
      qed
    qed
  qed
qed

lemma reformatBirthdays_idem:
  assumes "\<And>r b c. r \<in> set rows \<Longrightarrow> map_of r ''Birthday'' = Some b \<Longrightarrow> parseBirthday b = Some c \<Longrightarrow>
             f = YYYY_MM_DD
             \<or> (f = MM_DD_YYYY
                \<and> \<not> (wellFormed c \<and> 12 < parseInt (month c) \<and> parseInt (day c) \<le> 12))
             \<or> (f = DD_MM_YYYY
                \<and> ((wellFormed c \<and> 12 < parseInt (day c) \<and> parseInt (month c) \<le> 12)
                   \<or> month c = day c))"
  shows "reformatBirthdays (reformatBirthdays rows f) f = reformatBirthdays rows f"
proof -
  have "map (\<lambda>r. reformatRow f (reformatRow f r)) rows = map (reformatRow f) rows"
  proof (rule map_cong [OF refl])
    fix r assume "r \<in> set rows"
    then show "reformatRow f (reformatRow f r) = reformatRow f r"
      using assms by (intro reformatRow_idem) blast
  qed
  then show ?thesis
    by (simp add: reformatBirthdays_def comp_def)
qed

text \<open>
  A textual date with the month word "constructor" parses, with the inherited function
  as its month; the rendered date does not parse again.
\<close>

lemma parseBirthday_constructor:
  "parseBirthday ''Constructor 5 1990''
     = Some \<lparr>month = ''function Object() { [native code] }'', day = ''05'', year = ''1990''\<rparr>
   \<and> cleanBirthday ''Constructor 5 1990'' = ''function Object() { [native code] }/05/1990''
   \<and> cleanBirthday ''function Object() { [native code] }/05/1990''
       = ''function Object() { [native code] }/05/1990''"
  by code_simp

subsection \<open>The idempotence claims\<close>

text \<open>
  C1 (as stated): every standard field cleaner is idempotent on every string. The
  birthday cleaner is not: an ISO-like input with a month above 12 and a day of at most
  12 is rendered as \<^verbatim>\<open>MM/DD/YYYY\<close> with that month first, and cleaning the result reads
  the first number as a day and swaps the two.
\<close>

theorem C1_cleanBirthday_counterexample:
  "cleanBirthday ''1990-13-05'' = ''13/05/1990''
   \<and> cleanBirthday ''13/05/1990'' = ''05/13/1990''
   \<and> cleanBirthday (cleanBirthday ''1990-13-05'') \<noteq> cleanBirthday ''1990-13-05''"
  by code_simp

text \<open>
  C1 (amended): the cleaners for email, phone, status and tags are idempotent on every
  string; the cleaner for names (proper case) is idempotent on every string of ASCII
  characters; the time-zone cleaner is idempotent on every string that, trimmed and in
  lower case, is not the name of a property that the alias table inherits. The
  birthday cleaner is idempotent on an input exactly when the input does not parse, or
  parses to components that are not (a numeric month above 12 and a day of at most 12);
  such components only come from the ISO-like form with an out-of-range month.
\<close>

theorem C1_cleaners_idempotent:
  "(list_all isAscii x \<longrightarrow> toProperCase (toProperCase x) = toProperCase x)
   \<and> cleanEmail (cleanEmail x) = cleanEmail x
   \<and> cleanPhone (cleanPhone x) = cleanPhone x
   \<and> cleanStatus (cleanStatus x) = cleanStatus x
   \<and> cleanTags (cleanTags x) = cleanTags x
   \<and> (toLowerCase (trim x) \<notin> set OBJECT_PROTOTYPE_KEYS
        \<longrightarrow> cleanTimeZoneValue (cleanTimeZone x) = cleanTimeZone x)
   \<and> (cleanBirthday (cleanBirthday x) = cleanBirthday x \<longleftrightarrow>
        (case parseBirthday x of
           None \<Rightarrow> True
         | Some c \<Rightarrow>
             \<not> (wellFormed c \<and> 12 < parseInt (month c) \<and> parseInt (day c) \<le> 12)))"
proof -
  have p: "list_all isAscii x \<longrightarrow> toProperCase (toProperCase x) = toProperCase x"
    by (simp add: toProperCase_idem)
  have z: "toLowerCase (trim x) \<notin> set OBJECT_PROTOTYPE_KEYS
             \<longrightarrow> cleanTimeZoneValue (cleanTimeZone x) = cleanTimeZone x"
    by (rule impI) (rule cleanTimeZone_idem)
  have b: "cleanBirthday (cleanBirthday x) = cleanBirthday x \<longleftrightarrow>
        (case parseBirthday x of
           None \<Rightarrow> True
         | Some c \<Rightarrow>
             \<not> (wellFormed c \<and> 12 < parseInt (month c) \<and> parseInt (day c) \<le> 12))"
  proof (cases "parseBirthday x")
    case None
    then show ?thesis
      by (simp add: cleanBirthday_unparsed)
  next
    case (Some c)
    then show ?thesis
      by (simp add: cleanBirthday_parsed)
  qed
  show ?thesis
    by (intro conjI p cleanEmail_idem cleanPhone_idem cleanStatus_idem cleanTags_idem z b)
qed

theorem C1_cleaners_idempotent_witness:
  "cleanBirthday (cleanBirthday ''15/01/1990'') = cleanBirthday ''15/01/1990''
   \<and> cleanBirthday ''15/01/1990'' = ''01/15/1990''
   \<and> cleanTimeZoneValue (cleanTimeZone ''pst'') = cleanTimeZone ''pst''
   \<and> toProperCase (toProperCase ''ANNA maria'') = toProperCase ''ANNA maria''"
proof -
  note C1 = C1_cleaners_idempotent [of "''15/01/1990''"]
  note bd = C1 [THEN conjunct2, THEN conjunct2, THEN conjunct2, THEN conjunct2,
                THEN conjunct2, THEN conjunct2]
  have p: "parseBirthday ''15/01/1990'' = Some \<lparr>month = ''01'', day = ''15'', year = ''1990''\<rparr>"
    by code_simp
  have n: "\<not> (12 < parseInt ''01'' \<and> parseInt ''15'' \<le> 12)"
    by (simp add: parseInt_def digitVal_def)
  have 1: "cleanBirthday (cleanBirthday ''15/01/1990'') = cleanBirthday ''15/01/1990''"
    unfolding bd p using n by simp
  have 2: "cleanBirthday ''15/01/1990'' = ''01/15/1990''"
    by code_simp
  have k: "toLowerCase (trim ''pst'') \<notin> set OBJECT_PROTOTYPE_KEYS"
    by code_simp
  have 3: "cleanTimeZoneValue (cleanTimeZone ''pst'') = cleanTimeZone ''pst''"
    by (rule C1_cleaners_idempotent [of "''pst''", THEN conjunct2, THEN conjunct2,
               THEN conjunct2, THEN conjunct2, THEN conjunct2, THEN conjunct1, THEN mp, OF k])
  have a: "list_all isAscii ''ANNA maria''"
    by (simp add: isAscii_def)
  have 4: "toProperCase (toProperCase ''ANNA maria'') = toProperCase ''ANNA maria''"
    by (rule C1_cleaners_idempotent [of "''ANNA maria''", THEN conjunct1, THEN mp, OF a])
  show ?thesis
    by (rule conjI [OF 1 conjI [OF 2 conjI [OF 3 4]]])
qed

text \<open>
  C3 (as stated): for every fixed target format and every row whose Birthday parses,
  applying \<^verbatim>\<open>reformatBirthdays\<close> twice gives the same row as applying it once. It does not
  for \<^verbatim>\<open>DD/MM/YYYY\<close> and an ambiguous date: "03/04/1990" parses (month 03, day 04), is
  rendered "04/03/1990", which parses as month 04, day 03 and is rendered "03/04/1990"
  by the second application.
\<close>

theorem C3_reformatBirthdays_counterexample:
  "parseBirthday ''03/04/1990'' = Some \<lparr>month = ''03'', day = ''04'', year = ''1990''\<rparr>
   \<and> reformatBirthdays [[(''Birthday'', ''03/04/1990'')]] DD_MM_YYYY
        = [[(''Birthday'', ''04/03/1990'')]]
   \<and> reformatBirthdays (reformatBirthdays [[(''Birthday'', ''03/04/1990'')]] DD_MM_YYYY) DD_MM_YYYY
        = [[(''Birthday'', ''03/04/1990'')]]
   \<and> reformatBirthdays (reformatBirthdays [[(''Birthday'', ''03/04/1990'')]] DD_MM_YYYY) DD_MM_YYYY
        \<noteq> reformatBirthdays [[(''Birthday'', ''03/04/1990'')]] DD_MM_YYYY"
  by code_simp

text \<open>
  C3 (amended): \<^verbatim>\<open>reformatBirthdays\<close> is idempotent for the target \<^verbatim>\<open>YYYY/MM/DD\<close> on all
  rows; for \<^verbatim>\<open>MM/DD/YYYY\<close> when no parsed Birthday has a numeric month above 12 with a
  day of at most 12; for \<^verbatim>\<open>DD/MM/YYYY\<close> when every parsed Birthday has a day above 12
  with a numeric month of at most 12, or equal month and day. It keeps the number of
  rows, and a row whose Birthday is missing, empty or does not parse is passed through
  unchanged.
\<close>

theorem C3_reformatBirthdays_idempotent:
  "reformatBirthdays (reformatBirthdays rows YYYY_MM_DD) YYYY_MM_DD
     = reformatBirthdays rows YYYY_MM_DD
   \<and> ((\<forall>r\<in>set rows. \<forall>b c. map_of r ''Birthday'' = Some b \<and> parseBirthday b = Some c
          \<longrightarrow> \<not> (wellFormed c \<and> 12 < parseInt (month c) \<and> parseInt (day c) \<le> 12))
       \<longrightarrow> reformatBirthdays (reformatBirthdays rows MM_DD_YYYY) MM_DD_YYYY
             = reformatBirthdays rows MM_DD_YYYY)
   \<and> ((\<forall>r\<in>set rows. \<forall>b c. map_of r ''Birthday'' = Some b \<and> parseBirthday b = Some c
          \<longrightarrow> (wellFormed c \<and> 12 < parseInt (day c) \<and> parseInt (month c) \<le> 12)
              \<or> month c = day c)
       \<longrightarrow> reformatBirthdays (reformatBirthdays rows DD_MM_YYYY) DD_MM_YYYY
             = reformatBirthdays rows DD_MM_YYYY)
   \<and> length (reformatBirthdays rows format) = length rows
   \<and> (\<forall>i<length rows.
         (case map_of (rows ! i) ''Birthday'' of None \<Rightarrow> True | Some b \<Rightarrow> parseBirthday b = None)
         \<longrightarrow> reformatBirthdays rows format ! i = rows ! i)"
proof -
  have 1: "reformatBirthdays (reformatBirthdays rows YYYY_MM_DD) YYYY_MM_DD
             = reformatBirthdays rows YYYY_MM_DD"
    by (rule reformatBirthdays_idem) simp
  have 2: "reformatBirthdays (reformatBirthdays rows MM_DD_YYYY) MM_DD_YYYY
             = reformatBirthdays rows MM_DD_YYYY"
    if "\<forall>r\<in>set rows. \<forall>b c. map_of r ''Birthday'' = Some b \<and> parseBirthday b = Some c
          \<longrightarrow> \<not> (wellFormed c \<and> 12 < parseInt (month c) \<and> parseInt (day c) \<le> 12)"
    using that by (intro reformatBirthdays_idem) blast
  have 3: "reformatBirthdays (reformatBirthdays rows DD_MM_YYYY) DD_MM_YYYY
             = reformatBirthdays rows DD_MM_YYYY"
    if "\<forall>r\<in>set rows. \<forall>b c. map_of r ''Birthday'' = Some b \<and> parseBirthday b = Some c
          \<longrightarrow> (wellFormed c \<and> 12 < parseInt (day c) \<and> parseInt (month c) \<le> 12)
              \<or> month c = day c"
    using that by (intro reformatBirthdays_idem) blast
  have 4: "length (reformatBirthdays rows format) = length rows"
    by (simp add: reformatBirthdays_def)
  have 5: "\<forall>i<length rows.
         (case map_of (rows ! i) ''Birthday'' of None \<Rightarrow> True | Some b \<Rightarrow> parseBirthday b = None)
         \<longrightarrow> reformatBirthdays rows format ! i = rows ! i"
    by (simp add: reformatBirthdays_def reformatRow_unparsed)
  from 1 2 3 4 5 show ?thesis
    by blast
qed

theorem C3_reformatBirthdays_idempotent_witness:
  "reformatBirthdays
     (reformatBirthdays [[(''Birthday'', ''01/15/1990''), (''Notes'', ''a'')],
                         [(''Birthday'', ''next week'')]] DD_MM_YYYY) DD_MM_YYYY
     = reformatBirthdays [[(''Birthday'', ''01/15/1990''), (''Notes'', ''a'')],
                          [(''Birthday'', ''next week'')]] DD_MM_YYYY
   \<and> reformatBirthdays [[(''Birthday'', ''01/15/1990''), (''Notes'', ''a'')],
                        [(''Birthday'', ''next week'')]] DD_MM_YYYY
     = [[(''Birthday'', ''15/01/1990''), (''Notes'', ''a'')], [(''Birthday'', ''next week'')]]"
proof -
  let ?rows = "[[(''Birthday'', ''01/15/1990''), (''Notes'', ''a'')],
                [(''Birthday'', ''next week'')]]"
  have p1: "parseBirthday ''01/15/1990'' = Some \<lparr>month = ''01'', day = ''15'', year = ''1990''\<rparr>"
    by code_simp
  have p2: "parseBirthday ''next week'' = None"
    by code_simp
  have n: "12 < parseInt ''15'' \<and> parseInt ''01'' \<le> 12"
    by (simp add: parseInt_def digitVal_def)
  have w: "wellFormed \<lparr>month = ''01'', day = ''15'', year = ''1990''\<rparr>"
    by (simp add: wellFormed_def isDigit_def)
  have h: "\<forall>r\<in>set ?rows. \<forall>b c. map_of r ''Birthday'' = Some b \<and> parseBirthday b = Some c
          \<longrightarrow> (wellFormed c \<and> 12 < parseInt (day c) \<and> parseInt (month c) \<le> 12)
              \<or> month c = day c"
    using p1 p2 n w by auto
  note C3 = C3_reformatBirthdays_idempotent [where rows = ?rows]
  have 1: "reformatBirthdays (reformatBirthdays ?rows DD_MM_YYYY) DD_MM_YYYY
             = reformatBirthdays ?rows DD_MM_YYYY"
    by (rule C3 [THEN conjunct2, THEN conjunct2, THEN conjunct1, THEN mp, OF h])
  have 2: "reformatBirthdays ?rows DD_MM_YYYY
             = [[(''Birthday'', ''15/01/1990''), (''Notes'', ''a'')], [(''Birthday'', ''next week'')]]"
    by code_simp
  show ?thesis
    by (rule conjI [OF 1 2])
qed

end
